theory Spec2Isabelle
  imports Complex_Main "HOL-Library.AList" "HOL-Library.Sublist"
begin

section \<open>JSON documents and the Python operations used on them\<close>

text \<open>
  A payroll document is what \<^verbatim>\<open>json.loads\<close> returns: a tree of dicts, lists, strings,
  numbers, booleans and \<^verbatim>\<open>None\<close>. A dict is an association list in insertion order,
  read through \<open>map_of\<close> and written with \<open>AList.update\<close> (an existing key keeps its place,
  a new key goes to the end, as in Python). Strings are byte lists holding UTF-8; of the
  operations used below, \<^verbatim>\<open>split(".")\<close>, \<^verbatim>\<open>replace(",", ".")\<close> and the comparisons with
  ASCII literals act on ASCII bytes only, \<^verbatim>\<open>lower\<close> is compared with an ASCII literal only,
  and \<^verbatim>\<open>strip\<close> knows the white space beyond ASCII. A finite float is represented by its exact
  rational value, next to the two infinities and NaN; the program performs no
  floating-point arithmetic, it only tests floats for zero, parses and prints them.
\<close>

datatype pyfloat = Finite rat | PosInf | NegInf | NaN

datatype json =
    JNull
  | JBool bool
  | JInt int
  | JFloat pyfloat
  | JStr string
  | JList "json list"
  | JObj "(string \<times> json) list"

datatype error =
    AttributeError
  | TypeError
  | KeyError
  | IndexError
  | EOFError
  | OverflowError
  | ValueError string

definition ebind :: "error + 'a \<Rightarrow> ('a \<Rightarrow> error + 'b) \<Rightarrow> error + 'b" where
  "ebind m f = (case m of Inl e \<Rightarrow> Inl e | Inr x \<Rightarrow> f x)"

text \<open>Python truthiness: \<^verbatim>\<open>not x\<close> is \<open>\<not> truthy x\<close>.\<close>

fun truthy :: "json \<Rightarrow> bool" where
  "truthy JNull = False"
| "truthy (JBool b) = b"
| "truthy (JInt i) = (i \<noteq> 0)"
| "truthy (JFloat x) = (x \<noteq> Finite 0)"
| "truthy (JStr s) = (s \<noteq> [])"
| "truthy (JList xs) = (xs \<noteq> [])"
| "truthy (JObj kvs) = (kvs \<noteq> [])"

text \<open>\<^verbatim>\<open>isinstance(x, (dict, list))\<close>\<close>

fun is_container :: "json \<Rightarrow> bool" where
  "is_container (JObj kvs) = True"
| "is_container (JList xs) = True"
| "is_container _ = False"

text \<open>\<^verbatim>\<open>d.get(k, dflt)\<close>: only a dict has the method.\<close>

fun py_get :: "json \<Rightarrow> string \<Rightarrow> json \<Rightarrow> error + json" where
  "py_get (JObj kvs) k dflt = Inr (case map_of kvs k of None \<Rightarrow> dflt | Some v \<Rightarrow> v)"
| "py_get _ k dflt = Inl AttributeError"

text \<open>\<^verbatim>\<open>d.setdefault(k, dflt)\<close>: the dict after the call and the value returned.\<close>

fun py_setdefault :: "json \<Rightarrow> string \<Rightarrow> json \<Rightarrow> error + (json \<times> json)" where
  "py_setdefault (JObj kvs) k dflt =
     (case map_of kvs k of
        None \<Rightarrow> Inr (JObj (kvs @ [(k, dflt)]), dflt)
      | Some v \<Rightarrow> Inr (JObj kvs, v))"
| "py_setdefault _ k dflt = Inl AttributeError"

text \<open>\<^verbatim>\<open>d[k] = v\<close> with a string key: a list wants an integer index, the other
  values support no item assignment.\<close>

fun py_setitem :: "json \<Rightarrow> string \<Rightarrow> json \<Rightarrow> error + json" where
  "py_setitem (JObj kvs) k v = Inr (JObj (AList.update k v kvs))"
| "py_setitem _ k v = Inl TypeError"

text \<open>\<^verbatim>\<open>d[k]\<close> with a string key.\<close>

fun py_getitem :: "json \<Rightarrow> string \<Rightarrow> error + json" where
  "py_getitem (JObj kvs) k = (case map_of kvs k of None \<Rightarrow> Inl KeyError | Some v \<Rightarrow> Inr v)"
| "py_getitem _ k = Inl TypeError"

text \<open>\<^verbatim>\<open>k in d\<close> with a string \<open>k\<close>: key membership in a dict, element membership in a
  list, substring test in a string, a type error elsewhere.\<close>

fun py_contains :: "string \<Rightarrow> json \<Rightarrow> error + bool" where
  "py_contains k (JObj kvs) = Inr (map_of kvs k \<noteq> None)"
| "py_contains k (JList xs) = Inr (JStr k \<in> set xs)"
| "py_contains k (JStr s) = Inr (sublist k s)"
| "py_contains k _ = Inl TypeError"

text \<open>The elements a \<^verbatim>\<open>for\<close> loop or a generator sees: the items of a list, the keys
  of a dict, the characters of a string.\<close>

fun py_iter :: "json \<Rightarrow> error + json list" where
  "py_iter (JList xs) = Inr xs"
| "py_iter (JObj kvs) = Inr (map (\<lambda>kv. JStr (fst kv)) kvs)"
| "py_iter (JStr s) = Inr (map (\<lambda>c. JStr [c]) s)"
| "py_iter _ = Inl TypeError"

text \<open>In the tree model a dict reached through a reference is written back into its
  parent after it was mutated.\<close>

fun write_back :: "json \<Rightarrow> string \<Rightarrow> json \<Rightarrow> json" where
  "write_back (JObj kvs) k v = JObj (AList.update k v kvs)"
| "write_back d k v = d"

subsection \<open>Strings\<close>

abbreviation a_acute :: string where "a_acute \<equiv> [CHR 0xC3, CHR 0xA1]"
abbreviation i_acute :: string where "i_acute \<equiv> [CHR 0xC3, CHR 0xAD]"
abbreviation o_acute :: string where "o_acute \<equiv> [CHR 0xC3, CHR 0xB3]"
abbreviation e_acute :: string where "e_acute \<equiv> [CHR 0xC3, CHR 0xA9]"
abbreviation n_tilde :: string where "n_tilde \<equiv> [CHR 0xC3, CHR 0xB1]"
abbreviation inv_question :: string where "inv_question \<equiv> [CHR 0xC2, CHR 0xBF]"
abbreviation euro_sign :: string where "euro_sign \<equiv> [CHR 0xE2, CHR 0x82, CHR 0xAC]"

text \<open>\<^verbatim>\<open>str.lower\<close> on the ASCII letters. No other code point lowers to one of the
  letters of \<^verbatim>\<open>plus convenio\<close>, so the comparison with that literal is decided by these.\<close>

definition lower_char :: "char \<Rightarrow> char" where
  "lower_char c =
     (case map_of (zip ''ABCDEFGHIJKLMNOPQRSTUVWXYZ'' ''abcdefghijklmnopqrstuvwxyz'') c of
        None \<Rightarrow> c | Some l \<Rightarrow> l)"

definition lower :: "string \<Rightarrow> string" where
  "lower s = map lower_char s"

text \<open>\<^verbatim>\<open>x.lower()\<close> on a document value: only a string has the method.\<close>

fun py_lower :: "json \<Rightarrow> error + string" where
  "py_lower (JStr s) = Inr (lower s)"
| "py_lower _ = Inl AttributeError"

text \<open>
  \<^verbatim>\<open>str.strip()\<close> removes the white space at both ends of a string. White space is what
  \<^verbatim>\<open>str.isspace\<close> accepts: the code points U+0009 to U+000D, U+001C to U+0020, U+0085, U+00A0,
  U+1680, U+2000 to U+200A, U+2028, U+2029, U+202F, U+205F and U+3000, listed here by their
  UTF-8 bytes. In UTF-8 the bytes of one code point never end with the bytes of another, so
  the code point at the end of a string is recognised by its bytes, read backwards.
\<close>

definition whitespace :: "string list" where
  "whitespace =
     map (\<lambda>c. [c]) [CHR 0x09, CHR 0x0A, CHR 0x0B, CHR 0x0C, CHR 0x0D,
                     CHR 0x1C, CHR 0x1D, CHR 0x1E, CHR 0x1F, CHR 0x20]
     @ [[CHR 0xC2, CHR 0x85], [CHR 0xC2, CHR 0xA0], [CHR 0xE1, CHR 0x9A, CHR 0x80]]
     @ map (\<lambda>c. [CHR 0xE2, CHR 0x80, c])
         [CHR 0x80, CHR 0x81, CHR 0x82, CHR 0x83, CHR 0x84, CHR 0x85, CHR 0x86, CHR 0x87,
          CHR 0x88, CHR 0x89, CHR 0x8A, CHR 0xA8, CHR 0xA9, CHR 0xAF]
     @ [[CHR 0xE2, CHR 0x81, CHR 0x9F], [CHR 0xE3, CHR 0x80, CHR 0x80]]"

text \<open>The number of bytes of the code of \<open>ps\<close> the string starts with, 0 when it starts with
  none of them.\<close>

definition space_at_start :: "string list \<Rightarrow> string \<Rightarrow> nat" where
  "space_at_start ps s = (case find (\<lambda>p. prefix p s) ps of None \<Rightarrow> 0 | Some p \<Rightarrow> length p)"

function lstrip_of :: "string list \<Rightarrow> string \<Rightarrow> string" where
  "lstrip_of ps s =
     (if space_at_start ps s = 0 then s else lstrip_of ps (drop (space_at_start ps s) s))"
  by pat_completeness auto
termination
proof (relation "measure (\<lambda>(ps, s). length s)")
  fix ps :: "string list" and s :: string
  assume a: "space_at_start ps s \<noteq> 0"
  then obtain p where "find (\<lambda>p. prefix p s) ps = Some p" and "p \<noteq> []"
    by (auto simp: space_at_start_def split: option.splits)
  then have "prefix p s" by (auto simp: find_Some_iff)
  with \<open>p \<noteq> []\<close> have "s \<noteq> []" by auto
  with a show "((ps, drop (space_at_start ps s) s), (ps, s)) \<in> measure (\<lambda>(ps, s). length s)"
    by simp
qed simp

declare lstrip_of.simps [simp del]

definition lstrip :: "string \<Rightarrow> string" where
  "lstrip s = lstrip_of whitespace s"

definition rstrip :: "string \<Rightarrow> string" where
  "rstrip s = rev (lstrip_of (map rev whitespace) (rev s))"

definition strip :: "string \<Rightarrow> string" where
  "strip s = rstrip (lstrip s)"

text \<open>\<^verbatim>\<open>s.replace(",", ".")\<close>\<close>

definition replace_comma :: "string \<Rightarrow> string" where
  "replace_comma s = map (\<lambda>c. if c = CHR '','' then CHR ''.'' else c) s"

text \<open>\<^verbatim>\<open>s.split(c)\<close> for a one-character separator.\<close>

fun split :: "char \<Rightarrow> string \<Rightarrow> string list" where
  "split c [] = [[]]"
| "split c (x # xs) =
     (if x = c then [] # split c xs
      else (case split c xs of w # ws \<Rightarrow> (x # w) # ws | [] \<Rightarrow> [[x]]))"

text \<open>\<^verbatim>\<open>sep.join(xs)\<close>\<close>

fun join :: "string \<Rightarrow> string list \<Rightarrow> string" where
  "join sep [] = []"
| "join sep [x] = x"
| "join sep (x # y # ys) = x @ sep @ join sep (y # ys)"

subsection \<open>Region enrichment\<close>

definition CCAA_REGION_MAP :: "(string \<times> json) list" where
  "CCAA_REGION_MAP =
    [(''Andaluc'' @ i_acute @ ''a'', JObj [(''irpf_regime'', JStr ''AEAT'')]),
     (''Arag'' @ o_acute @ ''n'', JObj [(''irpf_regime'', JStr ''AEAT'')]),
     (''Principado de Asturias'', JObj [(''irpf_regime'', JStr ''AEAT'')]),
     (''Illes Balears'', JObj [(''irpf_regime'', JStr ''AEAT'')]),
     (''Canarias'', JObj [(''irpf_regime'', JStr ''AEAT'')]),
     (''Cantabria'', JObj [(''irpf_regime'', JStr ''AEAT'')]),
     (''Castilla-La Mancha'', JObj [(''irpf_regime'', JStr ''AEAT'')]),
     (''Castilla y Le'' @ o_acute @ ''n'', JObj [(''irpf_regime'', JStr ''AEAT'')]),
     (''Catalu'' @ n_tilde @ ''a'', JObj [(''irpf_regime'', JStr ''AEAT'')]),
     (''Comunitat Valenciana'', JObj [(''irpf_regime'', JStr ''AEAT'')]),
     (''Extremadura'', JObj [(''irpf_regime'', JStr ''AEAT'')]),
     (''Galicia'', JObj [(''irpf_regime'', JStr ''AEAT'')]),
     (''Comunidad de Madrid'', JObj [(''irpf_regime'', JStr ''AEAT'')]),
     (''Regi'' @ o_acute @ ''n de Murcia'', JObj [(''irpf_regime'', JStr ''AEAT'')]),
     (''La Rioja'', JObj [(''irpf_regime'', JStr ''AEAT'')]),
     (''Comunidad Foral de Navarra'', JObj [(''irpf_regime'', JStr ''FORAL_NAVARRA'')]),
     (''Pa'' @ i_acute @ ''s Vasco'', JObj [(''irpf_regime'', JStr ''FORAL_PV'')]),
     (''Ceuta'', JObj [(''irpf_regime'', JStr ''AEAT'')]),
     (''Melilla'', JObj [(''irpf_regime'', JStr ''AEAT'')])]"

text \<open>\<^verbatim>\<open>ccaa in CCAA_REGION_MAP\<close>: the key is hashed first, and a list or a dict is
  unhashable; a number, a boolean or \<^verbatim>\<open>None\<close> equals none of the string keys.\<close>

fun in_region_map :: "json \<Rightarrow> error + bool" where
  "in_region_map (JStr s) = Inr (map_of CCAA_REGION_MAP s \<noteq> None)"
| "in_region_map (JList xs) = Inl TypeError"
| "in_region_map (JObj kvs) = Inl TypeError"
| "in_region_map _ = Inr False"

text \<open>\<^verbatim>\<open>CCAA_REGION_MAP[ccaa]["irpf_regime"]\<close>\<close>

fun region_regime :: "json \<Rightarrow> error + json" where
  "region_regime (JStr s) =
     (case map_of CCAA_REGION_MAP s of
        None \<Rightarrow> Inl KeyError
      | Some entry \<Rightarrow> py_getitem entry ''irpf_regime'')"
| "region_regime (JList xs) = Inl TypeError"
| "region_regime (JObj kvs) = Inl TypeError"
| "region_regime _ = Inl KeyError"

text \<open>
  \<^verbatim>\<open>enrich_region_config\<close> on trees. \<^verbatim>\<open>json.loads(json.dumps(payload))\<close> builds a tree equal
  to \<open>payload\<close>, so \<open>data\<close> starts as \<open>payload\<close>; the copy itself is modelled on a store in
  the last section. \<open>rc\<close> is a reference into \<open>data\<close>, written back at the end.
\<close>

definition enrich_region_config :: "json \<Rightarrow> error + json" where
  "enrich_region_config payload =
     (let data = payload in
      ebind (py_get data ''region_config'' (JObj [])) (\<lambda>rc0.
      ebind (py_get rc0 ''ccaa'' JNull) (\<lambda>ccaa.
      if \<not> truthy ccaa then Inr data
      else
        ebind (py_setdefault data ''region_config'' (JObj [])) (\<lambda>(data1, rc).
        ebind (py_setdefault rc ''notes'' (JStr [])) (\<lambda>(rc1, notes).
        ebind (py_contains ''irpf_regime'' rc1) (\<lambda>has_regime.
        ebind (if \<not> has_regime then in_region_map ccaa else Inr False) (\<lambda>known.
        ebind (if \<not> has_regime \<and> known
               then ebind (region_regime ccaa) (\<lambda>r. py_setitem rc1 ''irpf_regime'' r)
               else Inr rc1) (\<lambda>rc2.
        Inr (write_back data1 ''region_config'' rc2)))))))))"

text \<open>Reading a document at a two-segment path, \<open>None\<close> when a segment is missing.\<close>

fun lookup :: "json \<Rightarrow> string \<Rightarrow> json option" where
  "lookup (JObj kvs) k = map_of kvs k"
| "lookup _ k = None"

definition lookup2 :: "json \<Rightarrow> string \<Rightarrow> string \<Rightarrow> json option" where
  "lookup2 d a b = (case lookup d a of None \<Rightarrow> None | Some x \<Rightarrow> lookup x b)"

subsection \<open>Printing values\<close>

text \<open>
  The floating-point conversions of the Python runtime are parameters of the model:
  \<^verbatim>\<open>float(s)\<close> on a string (\<open>None\<close> when it raises \<^verbatim>\<open>ValueError\<close>), \<^verbatim>\<open>float(i)\<close> on an
  integer (\<open>None\<close> when it raises \<^verbatim>\<open>OverflowError\<close>) and \<^verbatim>\<open>str(x)\<close> on a float.
\<close>

record float_ops =
  float_of_str :: "string \<Rightarrow> pyfloat option"
  float_of_int :: "int \<Rightarrow> pyfloat option"
  str_of_float :: "pyfloat \<Rightarrow> string"

definition digit_char :: "nat \<Rightarrow> char" where
  "digit_char n = ''0123456789abcdef'' ! n"

function str_of_nat :: "nat \<Rightarrow> string" where
  "str_of_nat n = (if n < 10 then [digit_char n] else str_of_nat (n div 10) @ [digit_char (n mod 10)])"
  by pat_completeness auto
termination
  by (relation "measure id") auto

definition str_of_int :: "int \<Rightarrow> string" where
  "str_of_int i = (if i < 0 then ''-'' @ str_of_nat (nat (- i)) else str_of_nat (nat i))"

text \<open>\<^verbatim>\<open>repr\<close> of a string, exact on ASCII: double quotes when the string has a single
  quote and no double quote, the quote and the backslash escaped, control characters as
  \<^verbatim>\<open>\t\<close>, \<^verbatim>\<open>\n\<close>, \<^verbatim>\<open>\r\<close> or \<^verbatim>\<open>\xNN\<close>. Bytes of a code point outside ASCII are kept (as Python
  does for a printable one).\<close>

definition repr_char :: "char \<Rightarrow> char \<Rightarrow> string" where
  "repr_char q c =
     (if c = q \<or> c = CHR 0x5C then [CHR 0x5C, c]
      else if c = CHR 0x09 then [CHR 0x5C, CHR ''t'']
      else if c = CHR 0x0A then [CHR 0x5C, CHR ''n'']
      else if c = CHR 0x0D then [CHR 0x5C, CHR ''r'']
      else if (of_char c :: nat) < 32 \<or> (of_char c :: nat) = 127
        then [CHR 0x5C, CHR ''x'', digit_char (of_char c div 16), digit_char (of_char c mod 16)]
      else [c])"

definition repr_str :: "string \<Rightarrow> string" where
  "repr_str s =
     (let q = (if CHR 0x27 \<in> set s \<and> CHR 0x22 \<notin> set s then CHR 0x22 else CHR 0x27)
      in [q] @ concat (map (repr_char q) s) @ [q])"

text \<open>\<^verbatim>\<open>str\<close> of a list of strings, as an f-string prints \<^verbatim>\<open>mf.enum\<close>.\<close>

definition str_of_str_list :: "string list \<Rightarrow> string" where
  "str_of_str_list xs = ''['' @ join '', '' (map repr_str xs) @ '']''"

fun py_repr :: "float_ops \<Rightarrow> json \<Rightarrow> string" where
  "py_repr fl JNull = ''None''"
| "py_repr fl (JBool b) = (if b then ''True'' else ''False'')"
| "py_repr fl (JInt i) = str_of_int i"
| "py_repr fl (JFloat x) = str_of_float fl x"
| "py_repr fl (JStr s) = repr_str s"
| "py_repr fl (JList xs) = ''['' @ join '', '' (map (py_repr fl) xs) @ '']''"
| "py_repr fl (JObj kvs) =
     ''{'' @ join '', '' (map (\<lambda>(k, v). repr_str k @ '': '' @ py_repr fl v) kvs) @ ''}''"

text \<open>\<^verbatim>\<open>str(x)\<close>, what an f-string field prints.\<close>

definition py_str :: "float_ops \<Rightarrow> json \<Rightarrow> string" where
  "py_str fl x = (case x of JStr s \<Rightarrow> s | _ \<Rightarrow> py_repr fl x)"

text \<open>\<^verbatim>\<open>float(x)\<close>\<close>

fun py_float :: "float_ops \<Rightarrow> json \<Rightarrow> error + pyfloat" where
  "py_float fl (JFloat x) = Inr x"
| "py_float fl (JInt i) = (case float_of_int fl i of None \<Rightarrow> Inl OverflowError | Some x \<Rightarrow> Inr x)"
| "py_float fl (JBool b) = Inr (Finite (if b then 1 else 0))"
| "py_float fl (JStr s) =
     (case float_of_str fl s of
        None \<Rightarrow> Inl (ValueError (''could not convert string to float: '' @ repr_str s))
      | Some x \<Rightarrow> Inr x)"
| "py_float fl _ = Inl TypeError"

section \<open>Preflight: missing fields\<close>

text \<open>The dataclass \<^verbatim>\<open>MissingField\<close>. \<^verbatim>\<open>None\<close> is \<open>JNull\<close> for \<open>default\<close> and \<open>None\<close> for
  \<open>enum\<close>.\<close>

record MissingField =
  path :: string
  question :: string
  hint :: string
  type' :: string
  enum' :: "string list option"
  default' :: json

subsection \<open>Programs that mutate a state and may raise\<close>

text \<open>A program returns the state it leaves behind, also when it raises: the caller of
  the Python function still holds the mutated object then.\<close>

type_synonym ('s, 'a) prog = "'s \<Rightarrow> 's \<times> (error + 'a)"

definition preturn :: "'a \<Rightarrow> ('s, 'a) prog" where
  "preturn x = (\<lambda>s. (s, Inr x))"

definition praise :: "error \<Rightarrow> ('s, 'a) prog" where
  "praise e = (\<lambda>s. (s, Inl e))"

definition pbind :: "('s, 'a) prog \<Rightarrow> ('a \<Rightarrow> ('s, 'b) prog) \<Rightarrow> ('s, 'b) prog" where
  "pbind m f = (\<lambda>s. case m s of (s', Inl e) \<Rightarrow> (s', Inl e) | (s', Inr x) \<Rightarrow> f x s')"

text \<open>An expression that reads the state.\<close>

definition pread :: "('s \<Rightarrow> error + 'a) \<Rightarrow> ('s, 'a) prog" where
  "pread f = (\<lambda>s. (s, f s))"

text \<open>A call that mutates the state and returns a value; the state is untouched when the
  call raises.\<close>

definition pmodify :: "('s \<Rightarrow> error + ('s \<times> 'a)) \<Rightarrow> ('s, 'a) prog" where
  "pmodify f = (\<lambda>s. case f s of Inl e \<Rightarrow> (s, Inl e) | Inr (s', x) \<Rightarrow> (s', Inr x))"

subsection \<open>\<^verbatim>\<open>_set_by_path\<close>\<close>

text \<open>
  The function walks \<open>cur\<close> down the path and assigns at the last segment. On trees it
  returns the subtree \<open>cur\<close> as the call leaves it, with the exception if one was raised;
  the next level is written back into its parent. An empty \<open>path_parts\<close> runs no iteration
  and fails at \<^verbatim>\<open>path_parts[-1]\<close>.
\<close>

fun set_by_path :: "json \<Rightarrow> string list \<Rightarrow> json \<Rightarrow> json \<times> error option" where
  "set_by_path cur [] v = (cur, Some IndexError)"
| "set_by_path cur [p] v =
     (case py_setitem cur p v of
        Inl e \<Rightarrow> (cur, Some e)
      | Inr cur' \<Rightarrow> (cur', None))"
| "set_by_path cur (p # ps) v =
     (case py_contains p cur of
        Inl e \<Rightarrow> (cur, Some e)
      | Inr present \<Rightarrow>
     (case (if present then ebind (py_getitem cur p) (\<lambda>x. Inr (\<not> is_container x)) else Inr True) of
        Inl e \<Rightarrow> (cur, Some e)
      | Inr replace \<Rightarrow>
     (case (if replace then py_setitem cur p (JObj []) else Inr cur) of
        Inl e \<Rightarrow> (cur, Some e)
      | Inr cur1 \<Rightarrow>
     (case py_getitem cur1 p of
        Inl e \<Rightarrow> (cur1, Some e)
      | Inr nxt \<Rightarrow>
     (case set_by_path nxt ps v of
        (nxt', r) \<Rightarrow> (write_back cur1 p nxt', r))))))"

subsection \<open>\<^verbatim>\<open>_parse_input\<close>\<close>

definition parse_input :: "float_ops \<Rightarrow> string \<Rightarrow> MissingField \<Rightarrow> error + json" where
  "parse_input fl value_str mf =
     (if type' mf = ''number''
        then ebind (py_float fl (JStr (replace_comma value_str))) (\<lambda>x. Inr (JFloat x))
      else if type' mf = ''enum''
        then (let v = strip value_str in
              if (case enum' mf of None \<Rightarrow> False | Some vs \<Rightarrow> vs \<noteq> [] \<and> v \<notin> set vs)
                then Inl (ValueError (''Valor '' @ [CHR 0x27] @ v @ [CHR 0x27] @ '' no est''
                                       @ a_acute @ '' en '' @ str_of_str_list (the (enum' mf))))
              else Inr (JStr v))
      else Inr (JStr (strip value_str)))"

subsection \<open>\<^verbatim>\<open>detect_missing\<close>\<close>

text \<open>\<^verbatim>\<open>it.get("name","").lower() == "plus convenio"\<close>\<close>

definition is_plus_convenio :: "json \<Rightarrow> error + bool" where
  "is_plus_convenio it =
     ebind (py_get it ''name'' (JStr [])) (\<lambda>n.
     ebind (py_lower n) (\<lambda>s. Inr (s = ''plus convenio'')))"

text \<open>\<^verbatim>\<open>any(... for it in items)\<close>: stops at the first item that matches.\<close>

fun any_plus_convenio :: "json list \<Rightarrow> error + bool" where
  "any_plus_convenio [] = Inr False"
| "any_plus_convenio (it # its) =
     ebind (is_plus_convenio it) (\<lambda>b. if b then Inr True else any_plus_convenio its)"

text \<open>\<^verbatim>\<open>any(... for it in payload.get(a, {}).get(b, []))\<close>\<close>

definition has_plus_convenio :: "json \<Rightarrow> string \<Rightarrow> string \<Rightarrow> error + bool" where
  "has_plus_convenio payload a b =
     ebind (py_get payload a (JObj [])) (\<lambda>sub.
     ebind (py_get sub b (JList [])) (\<lambda>items.
     ebind (py_iter items) any_plus_convenio))"

definition mf_plus_convenio :: MissingField where
  "mf_plus_convenio =
     \<lparr>path = ''compensation.plus_convenio_amount'',
      question = inv_question @ ''Importe mensual del 'Plus Convenio' ('' @ euro_sign @ '')?'',
      hint = ''Introduce la cuant'' @ i_acute @ ''a bruta mensual.'',
      type' = ''number'',
      enum' = None,
      default' = JFloat (Finite 0)\<rparr>"

definition mf_atep :: MissingField where
  "mf_atep =
     \<lparr>path = ''company.atep_tariff_pct'',
      question = ''Sin CNAE: indica tarifa AT/EP (%) p.ej. 1.50'',
      hint = ''Si conoces el CNAE, mejor a'' @ n_tilde @ a_acute @ ''delo y deja vac''
             @ i_acute @ ''o aqu'' @ i_acute @ ''.'',
      type' = ''number'',
      enum' = None,
      default' = JFloat (Finite (3 / 2))\<rparr>"

definition mf_cotization_year :: "float_ops \<Rightarrow> json \<Rightarrow> MissingField" where
  "mf_cotization_year fl period_year =
     \<lparr>path = ''tables.cotization_year'',
      question = inv_question @ ''A'' @ n_tilde @ ''o de tablas de cotizaci'' @ o_acute
                 @ ''n a aplicar? (p.ej. '' @ py_str fl period_year @ '')'',
      hint = ''Normalmente coincide con el a'' @ n_tilde @ ''o del per'' @ i_acute @ ''odo.'',
      type' = ''number'',
      enum' = None,
      default' = period_year\<rparr>"

definition mf_irpf_year :: "float_ops \<Rightarrow> json \<Rightarrow> MissingField" where
  "mf_irpf_year fl period_year =
     \<lparr>path = ''tables.irpf_year'',
      question = inv_question @ ''A'' @ n_tilde @ ''o de tablas IRPF a aplicar? (p.ej. ''
                 @ py_str fl period_year @ '')'',
      hint = ''AEAT o forales del ejercicio.'',
      type' = ''number'',
      enum' = None,
      default' = period_year\<rparr>"

definition mf_cra_code :: MissingField where
  "mf_cra_code =
     \<lparr>path = ''compensation.base_salary_cra_code'',
      question = ''C'' @ o_acute @ ''digo CRA para salario base (p.ej. C01):'',
      hint = ''Si no sabes, usa C01.'',
      type' = ''string'',
      enum' = None,
      default' = JStr ''C01''\<rparr>"

definition mf_nif :: MissingField where
  "mf_nif =
     \<lparr>path = ''worker.nif'',
      question = ''NIF del trabajador (formato 12345678Z). D'' @ e_acute @ ''jalo vac''
                 @ i_acute @ ''o si no aplica:'',
      hint = ''No afecta al c'' @ a_acute @ ''lculo pero s'' @ i_acute @ '' a trazabilidad.'',
      type' = ''string'',
      enum' = None,
      default' = JStr ''NO-INFORMADO''\<rparr>"

definition mf_irpf_regime :: MissingField where
  "mf_irpf_regime =
     \<lparr>path = ''region_config.irpf_regime'',
      question = ''R'' @ e_acute @ ''gimen IRPF (AEAT | FORAL_NAVARRA | FORAL_PV):'',
      hint = ''Por Catalu'' @ n_tilde @ ''a: AEAT.'',
      type' = ''enum'',
      enum' = Some [''AEAT'', ''FORAL_NAVARRA'', ''FORAL_PV''],
      default' = JStr ''AEAT''\<rparr>"

text \<open>
  The state is the payload: \<^verbatim>\<open>setdefault\<close> creates \<open>company\<close> and \<open>tables\<close> in it. The
  seven rules run in the order of the source; each appends its gap to \<open>missing\<close>.
\<close>

definition detect_missing :: "float_ops \<Rightarrow> (json, MissingField list) prog" where
  "detect_missing fl =
     pbind (pread (\<lambda>payload. has_plus_convenio payload ''collective_agreement'' ''allowances''))
       (\<lambda>has_plus_in_allowances.
     pbind (pread (\<lambda>payload. has_plus_convenio payload ''compensation'' ''variables''))
       (\<lambda>has_plus_in_comp.
     let missing1 = (if has_plus_in_allowances \<and> \<not> has_plus_in_comp then [mf_plus_convenio] else [])
     in
     pbind (pmodify (\<lambda>payload. py_setdefault payload ''company'' (JObj []))) (\<lambda>company.
     pbind (pread (\<lambda>payload. py_get company ''cnae'' JNull)) (\<lambda>cnae.
     pbind (pread (\<lambda>payload. py_get company ''atep_tariff_pct'' JNull)) (\<lambda>atep_tariff_pct.
     let missing2 = missing1 @ (if \<not> truthy cnae \<and> \<not> truthy atep_tariff_pct then [mf_atep] else [])
     in
     pbind (pread (\<lambda>payload.
              ebind (py_get payload ''period'' (JObj [])) (\<lambda>period. py_get period ''year'' JNull)))
       (\<lambda>period_year.
     pbind (pmodify (\<lambda>payload. py_setdefault payload ''tables'' (JObj []))) (\<lambda>tables.
     pbind (pread (\<lambda>payload. py_get tables ''cotization_year'' JNull)) (\<lambda>cotization_year.
     let missing3 = missing2 @ (if \<not> truthy cotization_year
                               then [mf_cotization_year fl period_year] else [])
     in
     pbind (pread (\<lambda>payload. py_get tables ''irpf_year'' JNull)) (\<lambda>irpf_year.
     let missing4 = missing3 @ (if \<not> truthy irpf_year then [mf_irpf_year fl period_year] else [])
     in
     pbind (pread (\<lambda>payload.
              ebind (py_get payload ''compensation'' (JObj []))
                (\<lambda>comp. py_get comp ''base_salary_cra_code'' JNull)))
       (\<lambda>cra_code.
     let missing5 = missing4 @ (if \<not> truthy cra_code then [mf_cra_code] else [])
     in
     pbind (pread (\<lambda>payload.
              ebind (py_get payload ''worker'' (JObj [])) (\<lambda>worker. py_get worker ''nif'' JNull)))
       (\<lambda>nif.
     let missing6 = missing5 @ (if \<not> truthy nif then [mf_nif] else [])
     in
     pbind (pread (\<lambda>payload.
              ebind (py_get payload ''region_config'' (JObj []))
                (\<lambda>rc. py_get rc ''irpf_regime'' JNull)))
       (\<lambda>irpf_regime.
     let missing7 = missing6 @ (if \<not> truthy irpf_regime then [mf_irpf_regime] else [])
     in
     preturn missing7))))))))))))"

subsection \<open>\<^verbatim>\<open>resolve_missing\<close>\<close>

text \<open>The resolver's state: the payload document it mutates and the console (the lines still to
  be read from standard input, the prompts written).\<close>

record world =
  document :: json
  stdin :: "string list"
  stdout :: "string list"

text \<open>\<^verbatim>\<open>input(prompt)\<close>: writes the prompt and reads a line; end of input raises.\<close>

definition py_input :: "string \<Rightarrow> (world, string) prog" where
  "py_input prompt = (\<lambda>w.
     (case stdin w of
        [] \<Rightarrow> (w\<lparr>stdout := stdout w @ [prompt]\<rparr>, Inl EOFError)
      | l # ls \<Rightarrow> (w\<lparr>stdout := stdout w @ [prompt], stdin := ls\<rparr>, Inr l)))"

text \<open>A program on the payload, run inside the world.\<close>

definition on_payload :: "(json, 'a) prog \<Rightarrow> (world, 'a) prog" where
  "on_payload m = (\<lambda>w. case m (document w) of (p', r) \<Rightarrow> (w\<lparr>document := p'\<rparr>, r))"

text \<open>The search loop of the special case: the index of the first variable-pay item
  named \<^verbatim>\<open>plus convenio\<close>, \<open>None\<close> when the loop ends without \<^verbatim>\<open>break\<close>.\<close>

fun find_plus_convenio :: "json list \<Rightarrow> error + nat option" where
  "find_plus_convenio [] = Inr None"
| "find_plus_convenio (v # vs) =
     ebind (is_plus_convenio v) (\<lambda>b.
       if b then Inr (Some 0)
       else ebind (find_plus_convenio vs) (\<lambda>r. Inr (map_option Suc r)))"

text \<open>\<^verbatim>\<open>vars_.append(x)\<close>: only a list has the method.\<close>

fun py_append :: "json \<Rightarrow> json \<Rightarrow> error + json" where
  "py_append (JList xs) x = Inr (JList (xs @ [x]))"
| "py_append _ x = Inl AttributeError"

text \<open>\<^verbatim>\<open>found["amount"] = a\<close>, where \<open>found\<close> is the item of the list at index \<open>i\<close>.\<close>

fun set_item_at :: "json \<Rightarrow> nat \<Rightarrow> string \<Rightarrow> json \<Rightarrow> error + json" where
  "set_item_at (JList xs) i k v =
     (if i < length xs then ebind (py_setitem (xs ! i) k v) (\<lambda>x'. Inr (JList (xs[i := x'])))
      else Inl IndexError)"
| "set_item_at _ i k v = Inl TypeError"

definition new_plus_convenio :: json where
  "new_plus_convenio =
     JObj [(''name'', JStr ''Plus Convenio''), (''taxable'', JBool True),
           (''contributory'', JBool True), (''cra_code'', JStr ''C02'')]"

text \<open>
  The special case of the resolver (the branch for \<^verbatim>\<open>compensation.plus_convenio_amount\<close>).
  \<open>comp\<close>, \<open>vars_\<close> and \<open>found\<close> are references into the payload; each mutation is written
  back, so the payload returned with an exception is the one the Python object holds
  at that point.
\<close>

definition set_plus_convenio :: "float_ops \<Rightarrow> json \<Rightarrow> (json, unit) prog" where
  "set_plus_convenio fl val = (\<lambda>payload.
     case py_setdefault payload ''compensation'' (JObj []) of
       Inl e \<Rightarrow> (payload, Inl e)
     | Inr (payload1, comp0) \<Rightarrow>
     (case py_setdefault comp0 ''variables'' (JList []) of
       Inl e \<Rightarrow> (payload1, Inl e)
     | Inr (comp1, vars) \<Rightarrow>
     (let payload2 = write_back payload1 ''compensation'' comp1 in
      case ebind (py_iter vars) find_plus_convenio of
       Inl e \<Rightarrow> (payload2, Inl e)
     | Inr found \<Rightarrow>
     (case (case found of
              Some i \<Rightarrow> Inr (vars, i)
            | None \<Rightarrow> ebind (py_iter vars) (\<lambda>old.
                      ebind (py_append vars new_plus_convenio) (\<lambda>vars'. Inr (vars', length old)))) of
       Inl e \<Rightarrow> (payload2, Inl e)
     | Inr (vars1, i) \<Rightarrow>
     (let payload3 = write_back payload2 ''compensation'' (write_back comp1 ''variables'' vars1) in
      case (if val \<noteq> JNull then py_float fl val else Inr (Finite 0)) of
       Inl e \<Rightarrow> (payload3, Inl e)
     | Inr amount \<Rightarrow>
     (case set_item_at vars1 i ''amount'' (JFloat amount) of
       Inl e \<Rightarrow> (payload3, Inl e)
     | Inr vars2 \<Rightarrow>
       (write_back payload3 ''compensation'' (write_back comp1 ''variables'' vars2), Inr ())))))))"

text \<open>The value of one gap: asked on the console or taken from the default. Returns
  the value and the warnings so far.\<close>

definition choose_value ::
  "float_ops \<Rightarrow> string \<Rightarrow> MissingField \<Rightarrow> string list \<Rightarrow> (world, json \<times> string list) prog" where
  "choose_value fl policy m warnings =
     (if policy = ''ask'' then
        (let q0 = question m @ '' ['' @ hint m @ '']'';
             q = (if type' m = ''enum'' \<and> (case enum' m of None \<Rightarrow> False | Some vs \<Rightarrow> vs \<noteq> [])
                  then q0 @ '' Opciones: '' @ join '', '' (the (enum' m)) else q0)
         in
         pbind (py_input (q @ [CHR 0x0A] @ ''> '')) (\<lambda>line.
         let raw = strip line in
         if raw = [] \<and> default' m \<noteq> JNull then
           preturn (default' m,
                    warnings @ [''Usado valor por defecto en '' @ path m @ '': ''
                                @ py_str fl (default' m)])
         else if raw = [] then
           praise (ValueError (''Dato obligatorio no proporcionado: '' @ path m))
         else
           pbind (pread (\<lambda>w. parse_input fl raw m)) (\<lambda>v. preturn (v, warnings))))
      else
        preturn (default' m,
                 warnings @ [''Valor por defecto aplicado en '' @ path m @ '': ''
                             @ py_str fl (default' m)]))"

text \<open>One iteration of the loop over \<open>missing\<close>.\<close>

definition resolve_step ::
  "float_ops \<Rightarrow> string \<Rightarrow> MissingField \<Rightarrow> string list \<Rightarrow> (world, string list) prog" where
  "resolve_step fl policy m warnings =
     pbind (choose_value fl policy m warnings) (\<lambda>(val, warnings').
     pbind (on_payload
              (if path m = ''compensation.plus_convenio_amount''
               then set_plus_convenio fl val
               else (\<lambda>p. case set_by_path p (split (CHR ''.'') (path m)) val of
                           (p', None) \<Rightarrow> (p', Inr ())
                         | (p', Some e) \<Rightarrow> (p', Inl e))))
       (\<lambda>u. preturn warnings'))"

fun resolve_loop ::
  "float_ops \<Rightarrow> string \<Rightarrow> MissingField list \<Rightarrow> string list \<Rightarrow> (world, string list) prog" where
  "resolve_loop fl policy [] warnings = preturn warnings"
| "resolve_loop fl policy (m # ms) warnings =
     pbind (resolve_step fl policy m warnings) (resolve_loop fl policy ms)"

text \<open>\<^verbatim>\<open>resolve_missing\<close> returns the payload object it was given (the state) and the
  warnings.\<close>

definition resolve_missing ::
  "float_ops \<Rightarrow> MissingField list \<Rightarrow> string \<Rightarrow> (world, string list) prog" where
  "resolve_missing fl missing policy =
     (if missing = [] then preturn []
      else if policy = ''fail'' then
        praise (ValueError (''Faltan datos cr'' @ i_acute @ ''ticos: '' @ join ''; '' (map path missing)))
      else resolve_loop fl policy missing [])"

subsection \<open>The preflight of \<^verbatim>\<open>call_gpt5_compute_payroll\<close>\<close>

text \<open>The detector followed by the resolver, as the client runs them on the enriched
  document: \<^verbatim>\<open>missing = detect_missing(enriched)\<close>, then
  \<^verbatim>\<open>resolve_missing(enriched, missing, policy=missing_policy)\<close>.\<close>

definition detect_and_resolve :: "float_ops \<Rightarrow> string \<Rightarrow> (world, string list) prog" where
  "detect_and_resolve fl policy =
     pbind (on_payload (detect_missing fl)) (\<lambda>missing. resolve_missing fl missing policy)"

section \<open>Region enrichment on a store\<close>

text \<open>
  To see what \<^verbatim>\<open>enrich_region_config\<close> does to the caller's object, dicts and lists live
  in a store: an object is reached through its address, two references to one address
  alias, and a mutation replaces the object at an address. The store is the list of all
  objects allocated so far; a new object gets the next address. Strings and numbers are
  immutable and held by value.
\<close>

type_synonym addr = nat

datatype pyval = VNull | VBool bool | VInt int | VFloat pyfloat | VStr string | VRef addr

datatype pyobj = DictObj "(string \<times> pyval) list" | ListObj "pyval list"

type_synonym heap = "pyobj list"

text \<open>The addresses an object refers to.\<close>

fun ref_of :: "pyval \<Rightarrow> addr set" where
  "ref_of (VRef a) = {a}"
| "ref_of _ = {}"

fun refs_of :: "pyobj \<Rightarrow> addr set" where
  "refs_of (DictObj kvs) = (\<Union>kv \<in> set kvs. ref_of (snd kv))"
| "refs_of (ListObj vs) = (\<Union>v \<in> set vs. ref_of v)"

text \<open>
  \<^verbatim>\<open>json.dumps\<close>, seen as the tree it writes. \<open>seen\<close> holds the containers being encoded
  (the encoder's \<^verbatim>\<open>markers\<close>): meeting one of them again is a circular reference. An address
  outside the store does not occur in a Python heap.
\<close>

function dumps :: "heap \<Rightarrow> addr list \<Rightarrow> pyval \<Rightarrow> error + json"
  and dumps_list :: "heap \<Rightarrow> addr list \<Rightarrow> pyval list \<Rightarrow> error + json list"
  and dumps_items :: "heap \<Rightarrow> addr list \<Rightarrow> (string \<times> pyval) list \<Rightarrow> error + (string \<times> json) list"
  where
  "dumps h seen VNull = Inr JNull"
| "dumps h seen (VBool b) = Inr (JBool b)"
| "dumps h seen (VInt i) = Inr (JInt i)"
| "dumps h seen (VFloat x) = Inr (JFloat x)"
| "dumps h seen (VStr s) = Inr (JStr s)"
| "dumps h seen (VRef a) =
     (if a \<in> set seen then Inl (ValueError ''Circular reference detected'')
      else if length h \<le> a then Inl TypeError
      else (case h ! a of
              ListObj vs \<Rightarrow> ebind (dumps_list h (a # seen) vs) (\<lambda>js. Inr (JList js))
            | DictObj kvs \<Rightarrow> ebind (dumps_items h (a # seen) kvs) (\<lambda>jkvs. Inr (JObj jkvs))))"
| "dumps_list h seen [] = Inr []"
| "dumps_list h seen (v # vs) =
     ebind (dumps h seen v) (\<lambda>j. ebind (dumps_list h seen vs) (\<lambda>js. Inr (j # js)))"
| "dumps_items h seen [] = Inr []"
| "dumps_items h seen (kv # kvs) =
     ebind (dumps h seen (snd kv)) (\<lambda>j.
     ebind (dumps_items h seen kvs) (\<lambda>jkvs. Inr ((fst kv, j) # jkvs)))"
  by pat_completeness auto
termination
  apply (relation "measures
     [\<lambda>x. case x of
             Inl (h, seen, v) \<Rightarrow> length h - card (set seen \<inter> {..<length h})
           | Inr (Inl (h, seen, vs)) \<Rightarrow> length h - card (set seen \<inter> {..<length h})
           | Inr (Inr (h, seen, kvs)) \<Rightarrow> length h - card (set seen \<inter> {..<length h}),
      \<lambda>x. case x of
             Inl (h, seen, v) \<Rightarrow> 0
           | Inr (Inl (h, seen, vs)) \<Rightarrow> Suc (length vs)
           | Inr (Inr (h, seen, kvs)) \<Rightarrow> Suc (length kvs)]")
                      apply simp_all
  subgoal for h seen a
  proof -
    assume "a \<notin> set seen" and "\<not> length h \<le> a"
    then have "a \<in> {..<length h} - set seen \<inter> {..<length h}" by simp
    then have "set seen \<inter> {..<length h} \<noteq> {..<length h}" by blast
    then have "set seen \<inter> {..<length h} \<subset> {..<length h}" by blast
    then have "card (set seen \<inter> {..<length h}) < card {..<length h}"
      by (rule psubset_card_mono [rotated]) simp
    then have "card (set seen \<inter> {..<length h}) < length h" by simp
    then show ?thesis by arith
  qed
  subgoal for h seen a
  proof -
    assume "a \<notin> set seen" and "\<not> length h \<le> a"
    then have "a \<in> {..<length h} - set seen \<inter> {..<length h}" by simp
    then have "set seen \<inter> {..<length h} \<noteq> {..<length h}" by blast
    then have "set seen \<inter> {..<length h} \<subset> {..<length h}" by blast
    then have "card (set seen \<inter> {..<length h}) < card {..<length h}"
      by (rule psubset_card_mono [rotated]) simp
    then have "card (set seen \<inter> {..<length h}) < length h" by simp
    then show ?thesis by arith
  qed
  done

text \<open>\<^verbatim>\<open>json.loads\<close>, seen from the tree it reads: every dict and list of the tree becomes a
  new object of the store.\<close>

fun loads :: "json \<Rightarrow> heap \<Rightarrow> heap \<times> pyval"
  and loads_list :: "json list \<Rightarrow> heap \<Rightarrow> heap \<times> pyval list"
  and loads_items :: "(string \<times> json) list \<Rightarrow> heap \<Rightarrow> heap \<times> (string \<times> pyval) list" where
  "loads JNull h = (h, VNull)"
| "loads (JBool b) h = (h, VBool b)"
| "loads (JInt i) h = (h, VInt i)"
| "loads (JFloat x) h = (h, VFloat x)"
| "loads (JStr s) h = (h, VStr s)"
| "loads (JList js) h = (case loads_list js h of (h', vs) \<Rightarrow> (h' @ [ListObj vs], VRef (length h')))"
| "loads (JObj kvs) h = (case loads_items kvs h of (h', kvs') \<Rightarrow> (h' @ [DictObj kvs'], VRef (length h')))"
| "loads_list [] h = (h, [])"
| "loads_list (j # js) h =
     (case loads j h of (h1, v) \<Rightarrow> (case loads_list js h1 of (h2, vs) \<Rightarrow> (h2, v # vs)))"
| "loads_items [] h = (h, [])"
| "loads_items (kv # kvs) h =
     (case loads (snd kv) h of (h1, v) \<Rightarrow>
        (case loads_items kvs h1 of (h2, kvs') \<Rightarrow> (h2, (fst kv, v) # kvs')))"

text \<open>The dict or list a value refers to.\<close>

fun deref :: "heap \<Rightarrow> pyval \<Rightarrow> pyobj option" where
  "deref h (VRef a) = (if a < length h then Some (h ! a) else None)"
| "deref h _ = None"

text \<open>Truthiness of a value in the store.\<close>

fun h_truthy :: "heap \<Rightarrow> pyval \<Rightarrow> bool" where
  "h_truthy h VNull = False"
| "h_truthy h (VBool b) = b"
| "h_truthy h (VInt i) = (i \<noteq> 0)"
| "h_truthy h (VFloat x) = (x \<noteq> Finite 0)"
| "h_truthy h (VStr s) = (s \<noteq> [])"
| "h_truthy h (VRef a) =
     (case deref h (VRef a) of
        Some (DictObj kvs) \<Rightarrow> kvs \<noteq> []
      | Some (ListObj vs) \<Rightarrow> vs \<noteq> []
      | None \<Rightarrow> False)"

text \<open>\<^verbatim>\<open>d.get(k, dflt)\<close>\<close>

definition h_get :: "heap \<Rightarrow> pyval \<Rightarrow> string \<Rightarrow> pyval \<Rightarrow> error + pyval" where
  "h_get h d k dflt =
     (case deref h d of
        Some (DictObj kvs) \<Rightarrow> Inr (case map_of kvs k of None \<Rightarrow> dflt | Some v \<Rightarrow> v)
      | _ \<Rightarrow> Inl AttributeError)"

text \<open>\<^verbatim>\<open>d.setdefault(k, dflt)\<close>: mutates the dict at the address of \<open>d\<close> when the key is
  absent.\<close>

definition h_setdefault :: "heap \<Rightarrow> pyval \<Rightarrow> string \<Rightarrow> pyval \<Rightarrow> error + (heap \<times> pyval)" where
  "h_setdefault h d k dflt =
     (case (d, deref h d) of
        (VRef a, Some (DictObj kvs)) \<Rightarrow>
          (case map_of kvs k of
             None \<Rightarrow> Inr (h[a := DictObj (kvs @ [(k, dflt)])], dflt)
           | Some v \<Rightarrow> Inr (h, v))
      | _ \<Rightarrow> Inl AttributeError)"

text \<open>\<^verbatim>\<open>d[k] = v\<close> with a string key.\<close>

definition h_setitem :: "heap \<Rightarrow> pyval \<Rightarrow> string \<Rightarrow> pyval \<Rightarrow> error + heap" where
  "h_setitem h d k v =
     (case (d, deref h d) of
        (VRef a, Some (DictObj kvs)) \<Rightarrow> Inr (h[a := DictObj (AList.update k v kvs)])
      | _ \<Rightarrow> Inl TypeError)"

text \<open>\<^verbatim>\<open>k in d\<close> with a string \<open>k\<close>.\<close>

definition h_contains :: "heap \<Rightarrow> string \<Rightarrow> pyval \<Rightarrow> error + bool" where
  "h_contains h k d =
     (case d of
        VStr s \<Rightarrow> Inr (sublist k s)
      | VRef a \<Rightarrow>
          (case deref h d of
             Some (DictObj kvs) \<Rightarrow> Inr (map_of kvs k \<noteq> None)
           | Some (ListObj vs) \<Rightarrow> Inr (VStr k \<in> set vs)
           | None \<Rightarrow> Inl TypeError)
      | _ \<Rightarrow> Inl TypeError)"

text \<open>\<^verbatim>\<open>ccaa in CCAA_REGION_MAP\<close> and \<^verbatim>\<open>CCAA_REGION_MAP[ccaa]["irpf_regime"]\<close>: a dict or a
  list is unhashable. The regimes of the table are strings.\<close>

fun h_in_region_map :: "pyval \<Rightarrow> error + bool" where
  "h_in_region_map (VStr s) = Inr (map_of CCAA_REGION_MAP s \<noteq> None)"
| "h_in_region_map (VRef a) = Inl TypeError"
| "h_in_region_map _ = Inr False"

fun h_region_regime :: "pyval \<Rightarrow> error + pyval" where
  "h_region_regime (VStr s) =
     (case region_regime (JStr s) of
        Inl e \<Rightarrow> Inl e
      | Inr (JStr r) \<Rightarrow> Inr (VStr r)
      | Inr _ \<Rightarrow> Inl TypeError)"
| "h_region_regime (VRef a) = Inl TypeError"
| "h_region_regime _ = Inl KeyError"

text \<open>\<^verbatim>\<open>{}\<close>: a new empty dict.\<close>

definition new_dict :: "heap \<Rightarrow> heap \<times> pyval" where
  "new_dict h = (h @ [DictObj []], VRef (length h))"

text \<open>
  \<^verbatim>\<open>enrich_region_config\<close> on the store: the store it leaves and the reference it returns
  (or the exception). The two \<^verbatim>\<open>{}\<close> arguments are allocated before the calls that take
  them.
\<close>

definition enrich_region_config_h :: "heap \<Rightarrow> pyval \<Rightarrow> heap \<times> (error + pyval)" where
  "enrich_region_config_h h payload =
     (case dumps h [] payload of
        Inl e \<Rightarrow> (h, Inl e)
      | Inr text \<Rightarrow>
     (case loads text h of (h1, data) \<Rightarrow>
     (case new_dict h1 of (h2, empty1) \<Rightarrow>
     (case ebind (h_get h2 data ''region_config'' empty1) (\<lambda>rc0. h_get h2 rc0 ''ccaa'' VNull) of
        Inl e \<Rightarrow> (h2, Inl e)
      | Inr ccaa \<Rightarrow>
     if \<not> h_truthy h2 ccaa then (h2, Inr data)
     else
     (case new_dict h2 of (h3, empty2) \<Rightarrow>
     (case h_setdefault h3 data ''region_config'' empty2 of
        Inl e \<Rightarrow> (h3, Inl e)
      | Inr (h4, rc) \<Rightarrow>
     (case h_setdefault h4 rc ''notes'' (VStr []) of
        Inl e \<Rightarrow> (h4, Inl e)
      | Inr (h5, notes) \<Rightarrow>
     (case h_contains h5 ''irpf_regime'' rc of
        Inl e \<Rightarrow> (h5, Inl e)
      | Inr has_regime \<Rightarrow>
     (case (if \<not> has_regime then h_in_region_map ccaa else Inr False) of
        Inl e \<Rightarrow> (h5, Inl e)
      | Inr known \<Rightarrow>
     if \<not> has_regime \<and> known then
       (case ebind (h_region_regime ccaa) (\<lambda>r. h_setitem h5 rc ''irpf_regime'' r) of
          Inl e \<Rightarrow> (h5, Inl e)
        | Inr h6 \<Rightarrow> (h6, Inr data))
     else (h5, Inr data))))))))))"

section \<open>Notions used to state the properties\<close>

text \<open>Reading a document along a path of keys.\<close>

fun lookup_path :: "json \<Rightarrow> string list \<Rightarrow> json option" where
  "lookup_path d [] = Some d"
| "lookup_path d (k # ks) = (case lookup d k of None \<Rightarrow> None | Some x \<Rightarrow> lookup_path x ks)"

text \<open>The value of \<^verbatim>\<open>payload.get(a, {}).get(b)\<close> when it does not raise.\<close>

definition get2 :: "json \<Rightarrow> string \<Rightarrow> string \<Rightarrow> json" where
  "get2 p a b = (case lookup2 p a b of None \<Rightarrow> JNull | Some v \<Rightarrow> v)"

fun is_dict :: "json \<Rightarrow> bool" where
  "is_dict (JObj kvs) = True"
| "is_dict _ = False"

text \<open>The section \<open>a\<close> of the document is absent or a dict: \<^verbatim>\<open>payload.get(a, {}).get\<close>
  does not raise.\<close>

definition section_ok :: "json \<Rightarrow> string \<Rightarrow> bool" where
  "section_ok p a = (case lookup p a of None \<Rightarrow> True | Some x \<Rightarrow> is_dict x)"

text \<open>The gaps the seven rules give, from the outcome of the two \<^verbatim>\<open>any\<close> tests and the
  values read from the document.\<close>

definition rule_gaps :: "float_ops \<Rightarrow> bool \<Rightarrow> bool \<Rightarrow> json \<Rightarrow> MissingField list" where
  "rule_gaps fl hpa hpc p =
     (if hpa \<and> \<not> hpc then [mf_plus_convenio] else [])
     @ (if \<not> truthy (get2 p ''company'' ''cnae'') \<and> \<not> truthy (get2 p ''company'' ''atep_tariff_pct'')
        then [mf_atep] else [])
     @ (if \<not> truthy (get2 p ''tables'' ''cotization_year'')
        then [mf_cotization_year fl (get2 p ''period'' ''year'')] else [])
     @ (if \<not> truthy (get2 p ''tables'' ''irpf_year'')
        then [mf_irpf_year fl (get2 p ''period'' ''year'')] else [])
     @ (if \<not> truthy (get2 p ''compensation'' ''base_salary_cra_code'') then [mf_cra_code] else [])
     @ (if \<not> truthy (get2 p ''worker'' ''nif'') then [mf_nif] else [])
     @ (if \<not> truthy (get2 p ''region_config'' ''irpf_regime'') then [mf_irpf_regime] else [])"

text \<open>The document after \<^verbatim>\<open>setdefault("company", {})\<close> and \<^verbatim>\<open>setdefault("tables", {})\<close>.\<close>

definition with_sections :: "json \<Rightarrow> json" where
  "with_sections p =
     (case py_setdefault p ''company'' (JObj []) of
        Inl e \<Rightarrow> p
      | Inr (p1, c) \<Rightarrow> (case py_setdefault p1 ''tables'' (JObj []) of Inl e \<Rightarrow> p1 | Inr (p2, t) \<Rightarrow> p2))"

text \<open>The document after \<^verbatim>\<open>_set_by_path(payload, [a, b], v)\<close> when the section \<open>a\<close> is absent or
  a dict: the section is created when absent, and \<open>b\<close> is assigned in it.\<close>

fun section_items :: "json option \<Rightarrow> (string \<times> json) list" where
  "section_items (Some (JObj kvs)) = kvs"
| "section_items _ = []"

fun put2 :: "json \<Rightarrow> string \<Rightarrow> string \<Rightarrow> json \<Rightarrow> json" where
  "put2 (JObj kvs) a b v = JObj (AList.update a (JObj (AList.update b v (section_items (map_of kvs a)))) kvs)"
| "put2 d a b v = d"

text \<open>The two-segment field a gap's path names.\<close>

definition field_of :: "MissingField \<Rightarrow> string \<times> string" where
  "field_of m = (case split (CHR ''.'') (path m) of [a, b] \<Rightarrow> (a, b) | _ \<Rightarrow> ([], []))"

text \<open>The gaps that are resolved by the generic nested assignment.\<close>

definition generic_gaps :: "float_ops \<Rightarrow> json \<Rightarrow> MissingField list" where
  "generic_gaps fl y =
     [mf_atep, mf_cotization_year fl y, mf_irpf_year fl y, mf_cra_code, mf_nif, mf_irpf_regime]"

text \<open>What the detector needs of a document to return: the document is a dict, its
  sections are absent or dicts, \<^verbatim>\<open>company\<close> and \<^verbatim>\<open>tables\<close> exist, and the two \<^verbatim>\<open>any\<close> tests
  return \<open>hpa\<close> and \<open>hpc\<close>.\<close>

definition detectable :: "bool \<Rightarrow> bool \<Rightarrow> json \<Rightarrow> bool" where
  "detectable hpa hpc d \<longleftrightarrow>
     is_dict d
     \<and> has_plus_convenio d ''collective_agreement'' ''allowances'' = Inr hpa
     \<and> has_plus_convenio d ''compensation'' ''variables'' = Inr hpc
     \<and> section_ok d ''company'' \<and> section_ok d ''period'' \<and> section_ok d ''tables''
     \<and> section_ok d ''compensation'' \<and> section_ok d ''worker'' \<and> section_ok d ''region_config''
     \<and> lookup d ''company'' \<noteq> None \<and> lookup d ''tables'' \<noteq> None"

text \<open>The rule that reads the field \<open>(a, b)\<close> reports no gap: the value there is truthy
  (for the tariff, a truthy CNAE will do as well).\<close>

definition field_filled :: "json \<Rightarrow> string \<times> string \<Rightarrow> bool" where
  "field_filled d f \<longleftrightarrow>
     truthy (get2 d (fst f) (snd f))
     \<or> (f = (''company'', ''atep_tariff_pct'') \<and> truthy (get2 d ''company'' ''cnae''))"

text \<open>The variable-pay item the special case appends, once its amount is set.\<close>

definition plus_convenio_item :: "pyfloat \<Rightarrow> json" where
  "plus_convenio_item a =
     JObj [(''name'', JStr ''Plus Convenio''), (''taxable'', JBool True),
           (''contributory'', JBool True), (''cra_code'', JStr ''C02''), (''amount'', JFloat a)]"

text \<open>The list \<^verbatim>\<open>payload.get("compensation", {}).get("variables", [])\<close>.\<close>

definition variables_of :: "json \<Rightarrow> json" where
  "variables_of d = (case lookup2 d ''compensation'' ''variables'' of None \<Rightarrow> JList [] | Some x \<Rightarrow> x)"

text \<open>The part of the store from address \<open>n\<close> on refers to nothing below \<open>n\<close> (and to
  nothing outside the store).\<close>

definition fresh_from :: "nat \<Rightarrow> heap \<Rightarrow> bool" where
  "fresh_from n h \<longleftrightarrow> list_all (\<lambda>ob. refs_of ob \<subseteq> {n..<length h}) (drop n h)"

definition val_fresh :: "nat \<Rightarrow> heap \<Rightarrow> pyval \<Rightarrow> bool" where
  "val_fresh n h v \<longleftrightarrow> ref_of v \<subseteq> {n..<length h}"

section \<open>Examples of the parameters\<close>

text \<open>Float conversions for the concrete examples below: they agree with Python on the
  strings, integers and floats the examples use.\<close>

definition example_float_ops :: float_ops where
  "example_float_ops =
     \<lparr>float_of_str = (\<lambda>s. if s = ''0'' then Some (Finite 0) else None),
      float_of_int = (\<lambda>i. if \<bar>i\<bar> \<le> 2 ^ 53 then Some (Finite (of_int i)) else None),
      str_of_float = (\<lambda>x. if x = Finite 0 then ''0.0''
                           else if x = Finite (3 / 2) then ''1.5'' else ''nan'')\<rparr>"

section \<open>Properties\<close>

subsection \<open>Association lists and strings\<close>

lemma update_same: "map_of al k = Some v \<Longrightarrow> AList.update k v al = al"
  by (induction al) auto

lemma sublist_prepend: "sublist x ys \<Longrightarrow> sublist x (ps @ ys)"
  by (simp add: sublist_append)

lemma sublist_join: "x \<in> set xs \<Longrightarrow> sublist x (join sep xs)"
proof (induction sep xs rule: join.induct)
  case (1 sep)
  then show ?case by simp
next
  case (2 sep y)
  then show ?case by simp
next
  case (3 sep y z zs)
  show ?case
  proof (cases "x = y")
    case True
    then show ?thesis by (simp add: sublist_def) (metis append_Nil)
  next
    case False
    with 3 have "sublist x (join sep (z # zs))" by simp
    then show ?thesis
      by (simp add: sublist_append)
  qed
qed

subsection \<open>Region enrichment\<close>

text \<open>
  C9. When \<^verbatim>\<open>region_config.irpf_regime\<close> is already set, enrichment returns a document
  with the same regime tag; and enriching that result again returns it unchanged.
\<close>

theorem enrich_keeps_regime:
  assumes "lookup2 p ''region_config'' ''irpf_regime'' = Some r"
  shows "\<exists>d. enrich_region_config p = Inr d
           \<and> lookup2 d ''region_config'' ''irpf_regime'' = Some r
           \<and> enrich_region_config d = Inr d"
proof -
  from assms obtain kvs where p: "p = JObj kvs"
    by (cases p) (auto simp: lookup2_def)
  from assms p obtain rc where rc: "map_of kvs ''region_config'' = Some rc"
    by (auto simp: lookup2_def split: option.splits)
  from assms p rc obtain rkvs where rkvs: "rc = JObj rkvs"
      and reg: "map_of rkvs ''irpf_regime'' = Some r"
    by (cases rc) (auto simp: lookup2_def)
  show ?thesis
  proof (cases "truthy (case map_of rkvs ''ccaa'' of None \<Rightarrow> JNull | Some v \<Rightarrow> v)")
    case False
    then show ?thesis using p rc rkvs reg assms
      by (simp add: enrich_region_config_def ebind_def)
  next
    case True
    show ?thesis
    proof (cases "map_of rkvs ''notes''")
      case None
      then show ?thesis using p rc rkvs reg True
        by (simp add: enrich_region_config_def ebind_def lookup2_def update_conv' map_add_def
            update_same)
    next
      case (Some n)
      then show ?thesis using p rc rkvs reg True assms
        by (simp add: enrich_region_config_def ebind_def lookup2_def update_conv' update_same)
    qed
  qed
qed

theorem enrich_keeps_regime_witness:
  "lookup2 (JObj [(''region_config'', JObj [(''ccaa'', JStr ''Galicia''),
                                            (''irpf_regime'', JStr ''FORAL_PV'')])])
      ''region_config'' ''irpf_regime'' = Some (JStr ''FORAL_PV'')
   \<and> (\<exists>d. enrich_region_config
             (JObj [(''region_config'', JObj [(''ccaa'', JStr ''Galicia''),
                                              (''irpf_regime'', JStr ''FORAL_PV'')])]) = Inr d
          \<and> lookup2 d ''region_config'' ''irpf_regime'' = Some (JStr ''FORAL_PV'')
          \<and> enrich_region_config d = Inr d)"
proof -
  have h: "lookup2 (JObj [(''region_config'', JObj [(''ccaa'', JStr ''Galicia''),
                                                    (''irpf_regime'', JStr ''FORAL_PV'')])])
             ''region_config'' ''irpf_regime'' = Some (JStr ''FORAL_PV'')"
    by (simp add: lookup2_def)
  show ?thesis using h enrich_keeps_regime [OF h] by blast
qed

subsection \<open>The resolver under policy \<^verbatim>\<open>fail\<close>\<close>

text \<open>
  C1. With a non-empty gap list and policy \<^verbatim>\<open>fail\<close> the resolver raises one
  \<^verbatim>\<open>ValueError\<close> whose message is the fixed prefix followed by the gap paths joined with
  \<^verbatim>\<open>"; "\<close>, so every gap's path occurs in it; the state it leaves is the state it was
  given: the document (and the console) are untouched.
\<close>

theorem resolve_fail_raises:
  assumes "missing \<noteq> []"
  shows "\<exists>msg. resolve_missing fl missing ''fail'' w = (w, Inl (ValueError msg))
           \<and> msg = ''Faltan datos cr'' @ i_acute @ ''ticos: '' @ join ''; '' (map path missing)
           \<and> (\<forall>m \<in> set missing. sublist (path m) msg)"
proof -
  define msg where "msg = ''Faltan datos cr'' @ i_acute @ ''ticos: '' @ join ''; '' (map path missing)"
  have raised: "resolve_missing fl missing ''fail'' w = (w, Inl (ValueError msg))"
    using assms by (simp add: resolve_missing_def praise_def msg_def)
  have named: "sublist (path m) msg" if "m \<in> set missing" for m
  proof -
    from that have "sublist (path m) (join ''; '' (map path missing))"
      by (intro sublist_join) simp
    then show ?thesis
      unfolding msg_def by (intro sublist_prepend)
  qed
  from raised named show ?thesis
    unfolding msg_def by blast
qed

theorem resolve_fail_raises_witness:
  "resolve_missing example_float_ops [mf_nif, mf_irpf_regime] ''fail''
      \<lparr>document = JObj [(''period'', JObj [(''year'', JInt 2025)])], stdin = [], stdout = []\<rparr>
   = (\<lparr>document = JObj [(''period'', JObj [(''year'', JInt 2025)])], stdin = [], stdout = []\<rparr>,
      Inl (ValueError (''Faltan datos cr'' @ i_acute @ ''ticos: worker.nif; region_config.irpf_regime'')))
   \<and> sublist ''worker.nif''
        (''Faltan datos cr'' @ i_acute @ ''ticos: worker.nif; region_config.irpf_regime'')
   \<and> sublist ''region_config.irpf_regime''
        (''Faltan datos cr'' @ i_acute @ ''ticos: worker.nif; region_config.irpf_regime'')"
  using resolve_fail_raises [of "[mf_nif, mf_irpf_regime]" example_float_ops
      "\<lparr>document = JObj [(''period'', JObj [(''year'', JInt 2025)])], stdin = [], stdout = []\<rparr>"]
  by (simp add: mf_nif_def mf_irpf_regime_def)

subsection \<open>The \<^verbatim>\<open>notes\<close> field\<close>

text \<open>
  C3, as stated, fails: a document with a \<^verbatim>\<open>region_config\<close> but no \<^verbatim>\<open>ccaa\<close> is returned as
  it is, without a \<^verbatim>\<open>notes\<close> field (the function returns before \<^verbatim>\<open>setdefault("notes", "")\<close>).
\<close>

theorem enrich_notes_counterexample:
  "enrich_region_config (JObj [(''region_config'', JObj [(''irpf_regime'', JStr ''AEAT'')])])
     = Inr (JObj [(''region_config'', JObj [(''irpf_regime'', JStr ''AEAT'')])])
   \<and> lookup2 (JObj [(''region_config'', JObj [(''irpf_regime'', JStr ''AEAT'')])])
        ''region_config'' ''notes'' = None"
  by (simp add: enrich_region_config_def ebind_def lookup2_def)

lemma in_region_map_not_container: "\<not> is_container c \<Longrightarrow> \<exists>b. in_region_map c = Inr b"
  by (cases c) auto

lemma region_regime_known: "in_region_map c = Inr True \<Longrightarrow> \<exists>r. region_regime c = Inr r"
  by (cases c) (auto simp: CCAA_REGION_MAP_def split: if_splits)

text \<open>
  C3, amended. When \<^verbatim>\<open>region_config.ccaa\<close> is present and truthy (and is not a list or a
  dict, unless a regime tag is already set), enrichment returns a document whose
  \<^verbatim>\<open>region_config\<close> has a \<^verbatim>\<open>notes\<close> field: the value it had, or the empty string. When
  \<^verbatim>\<open>ccaa\<close> is absent or falsy, the document is returned unchanged.
\<close>

theorem enrich_notes:
  "(lookup2 p ''region_config'' ''ccaa'' = Some c \<and> truthy c
      \<and> (\<not> is_container c \<or> lookup2 p ''region_config'' ''irpf_regime'' \<noteq> None)
    \<longrightarrow> (\<exists>d. enrich_region_config p = Inr d
           \<and> lookup2 d ''region_config'' ''notes''
               = Some (case lookup2 p ''region_config'' ''notes'' of None \<Rightarrow> JStr [] | Some n \<Rightarrow> n)))
   \<and> ((case lookup2 p ''region_config'' ''ccaa'' of None \<Rightarrow> True | Some c' \<Rightarrow> \<not> truthy c')
      \<and> enrich_region_config p = Inr d
    \<longrightarrow> d = p)"
proof (intro conjI impI)
  assume a: "lookup2 p ''region_config'' ''ccaa'' = Some c \<and> truthy c
      \<and> (\<not> is_container c \<or> lookup2 p ''region_config'' ''irpf_regime'' \<noteq> None)"
  then obtain kvs where p: "p = JObj kvs"
    by (cases p) (auto simp: lookup2_def)
  from a p obtain rc where rc: "map_of kvs ''region_config'' = Some rc"
    by (auto simp: lookup2_def split: option.splits)
  from a p rc obtain rkvs where rkvs: "rc = JObj rkvs" and cc: "map_of rkvs ''ccaa'' = Some c"
    by (cases rc) (auto simp: lookup2_def)
  from a have t: "truthy c" by simp
  define rkvs1 where "rkvs1 = (case map_of rkvs ''notes'' of None \<Rightarrow> rkvs @ [(''notes'', JStr [])] | Some n \<Rightarrow> rkvs)"
  have notes1: "map_of rkvs1 ''notes'' = Some (case map_of rkvs ''notes'' of None \<Rightarrow> JStr [] | Some n \<Rightarrow> n)"
    by (auto simp: rkvs1_def map_add_def split: option.splits)
  have reg1: "map_of rkvs1 ''irpf_regime'' = map_of rkvs ''irpf_regime''"
    by (auto simp: rkvs1_def map_add_def split: option.splits)
  have sd: "py_setdefault (JObj rkvs) ''notes'' (JStr []) = Inr (JObj rkvs1, case map_of rkvs ''notes'' of None \<Rightarrow> JStr [] | Some n \<Rightarrow> n)"
    by (auto simp: rkvs1_def split: option.splits)
  show "\<exists>d. enrich_region_config p = Inr d
           \<and> lookup2 d ''region_config'' ''notes''
               = Some (case lookup2 p ''region_config'' ''notes'' of None \<Rightarrow> JStr [] | Some n \<Rightarrow> n)"
  proof (cases "map_of rkvs ''irpf_regime''")
    case (Some r)
    then show ?thesis using p rc rkvs cc t sd notes1 reg1
      by (simp add: enrich_region_config_def ebind_def lookup2_def update_conv')
  next
    case None
    with a p rc rkvs have nc: "\<not> is_container c" by (simp add: lookup2_def)
    then obtain b where b: "in_region_map c = Inr b"
      using in_region_map_not_container by blast
    show ?thesis
    proof (cases b)
      case False
      then show ?thesis using p rc rkvs cc t sd notes1 reg1 None b
        by (simp add: enrich_region_config_def ebind_def lookup2_def update_conv')
    next
      case True
      with b have "in_region_map c = Inr True" by simp
      then obtain r where r: "region_regime c = Inr r"
        using region_regime_known by blast
      then show ?thesis using p rc rkvs cc t sd notes1 reg1 None b True
        by (simp add: enrich_region_config_def ebind_def lookup2_def update_conv')
    qed
  qed
next
  assume a: "(case lookup2 p ''region_config'' ''ccaa'' of None \<Rightarrow> True | Some c' \<Rightarrow> \<not> truthy c')
      \<and> enrich_region_config p = Inr d"
  then obtain kvs where p: "p = JObj kvs"
    by (cases p) (auto simp: enrich_region_config_def ebind_def)
  show "d = p"
  proof (cases "map_of kvs ''region_config''")
    case None
    then show ?thesis using a p
      by (simp add: enrich_region_config_def ebind_def)
  next
    case (Some rc)
    with a p obtain rkvs where "rc = JObj rkvs"
      by (cases rc) (auto simp: enrich_region_config_def ebind_def)
    then show ?thesis using a p Some
      by (auto simp: enrich_region_config_def ebind_def lookup2_def split: option.splits)
  qed
qed

subsection \<open>Nested assignment through a list\<close>

lemma set_by_path_in_list: "ps \<noteq> [] \<Longrightarrow> set_by_path (JList xs) ps v = (JList xs, Some TypeError)"
proof (cases ps)
  case Nil
  assume "ps \<noteq> []"
  with Nil show ?thesis by simp
next
  case (Cons q qs)
  then show ?thesis
    by (cases qs) (auto simp: ebind_def)
qed

lemma set_by_path_list_intermediate:
  assumes "map_of kvs p = Some (JList xs)" and "ps \<noteq> []"
  shows "set_by_path (JObj kvs) (p # ps) v = (JObj kvs, Some TypeError)"
proof -
  from assms(2) obtain q qs where ps: "ps = q # qs" by (cases ps) auto
  have inner: "set_by_path (JList xs) (q # qs) v = (JList xs, Some TypeError)"
    using set_by_path_in_list [OF assms(2), of xs v] by (simp add: ps)
  show ?thesis
    unfolding ps
    by (subst set_by_path.simps(3))
      (simp add: assms(1) inner ebind_def update_same del: set_by_path.simps)
qed


text \<open>
  C10. When the first segment of a gap's path holds a list, \<^verbatim>\<open>_set_by_path\<close> keeps the
  list, descends into it and fails with \<^verbatim>\<open>TypeError\<close>, leaving the document as it was; the
  resolver (under a policy other than \<^verbatim>\<open>ask\<close> and \<^verbatim>\<open>fail\<close>) propagates that exception.
\<close>

theorem resolver_list_intermediate:
  assumes "map_of kvs p = Some (JList xs)" and "ps \<noteq> []"
    and "split (CHR ''.'') (path m) = p # ps"
    and "path m \<noteq> ''compensation.plus_convenio_amount''"
    and "policy \<noteq> ''ask''" and "policy \<noteq> ''fail''"
    and "document w = JObj kvs"
  shows "set_by_path (JObj kvs) (p # ps) v = (JObj kvs, Some TypeError)
       \<and> resolve_missing fl (m # ms) policy w = (w, Inl TypeError)"
proof -
  have s: "set_by_path (JObj kvs) (p # ps) v' = (JObj kvs, Some TypeError)" for v'
    using assms(1,2) by (rule set_by_path_list_intermediate)
  have "resolve_missing fl (m # ms) policy w = (w\<lparr>document := JObj kvs\<rparr>, Inl TypeError)"
    using assms(3-7) s
    by (simp add: resolve_missing_def resolve_step_def choose_value_def pbind_def preturn_def
        on_payload_def del: set_by_path.simps)
  moreover have "w\<lparr>document := JObj kvs\<rparr> = w"
    using assms(7) by simp
  ultimately show ?thesis using s by simp
qed

theorem resolver_list_intermediate_witness:
  "set_by_path (JObj [(''tables'', JList [])]) [''tables'', ''cotization_year''] (JInt 2025)
     = (JObj [(''tables'', JList [])], Some TypeError)
   \<and> resolve_missing example_float_ops [mf_cotization_year example_float_ops (JInt 2025)] ''default''
       \<lparr>document = JObj [(''tables'', JList [])], stdin = [], stdout = []\<rparr>
     = (\<lparr>document = JObj [(''tables'', JList [])], stdin = [], stdout = []\<rparr>, Inl TypeError)"
  using resolver_list_intermediate [of "[(''tables'', JList [])]" "''tables''" "[]"
      "[''cotization_year'']" "mf_cotization_year example_float_ops (JInt 2025)" "''default''"
      "\<lparr>document = JObj [(''tables'', JList [])], stdin = [], stdout = []\<rparr>" "JInt 2025"
      example_float_ops "[]"]
  by (simp add: mf_cotization_year_def)

subsection \<open>Rejection of a value outside the enumeration\<close>

lemma resolve_loop_append:
  "resolve_loop fl policy (xs @ ys) ws w =
     (case resolve_loop fl policy xs ws w of
        (w1, Inl e) \<Rightarrow> (w1, Inl e)
      | (w1, Inr ws1) \<Rightarrow> resolve_loop fl policy ys ws1 w1)"
proof (induction xs arbitrary: ws w)
  case Nil
  then show ?case by (simp add: preturn_def)
next
  case (Cons x xs)
  show ?case
    by (simp add: pbind_def Cons split: prod.splits sum.splits)
qed

lemma str_of_regimes:
  "str_of_str_list [''AEAT'', ''FORAL_NAVARRA'', ''FORAL_PV'']
     = ''['AEAT', 'FORAL_NAVARRA', 'FORAL_PV']''"
  by (simp add: str_of_str_list_def repr_str_def repr_char_def Let_def)

lemma strip_BOGUS: "strip ''BOGUS'' = ''BOGUS''"
  by code_simp

text \<open>
  C7. Under policy \<^verbatim>\<open>ask\<close>, when the gaps before \<^verbatim>\<open>region_config.irpf_regime\<close> have been
  resolved and the next line of input is \<^verbatim>\<open>BOGUS\<close>, resolution raises \<^verbatim>\<open>ValueError\<close> with the
  message \<^verbatim>\<open>Valor 'BOGUS' no esta en ['AEAT', 'FORAL_NAVARRA', 'FORAL_PV']\<close> (with the accented
  letter), which names the value and lists the three permitted regimes; the document is the
  one the earlier gaps left.
\<close>

theorem ask_bogus_regime_rejected:
  assumes "resolve_loop fl ''ask'' pre [] w = (w1, Inr ws)" and "stdin w1 = ''BOGUS'' # rest"
  shows "\<exists>w2. resolve_missing fl (pre @ mf_irpf_regime # post) ''ask'' w
               = (w2, Inl (ValueError (''Valor 'BOGUS' no est'' @ a_acute
                                        @ '' en ['AEAT', 'FORAL_NAVARRA', 'FORAL_PV']'')))
           \<and> document w2 = document w1 \<and> stdin w2 = rest"
proof -
  have step: "\<exists>w2. resolve_step fl ''ask'' mf_irpf_regime ws w1
               = (w2, Inl (ValueError (''Valor 'BOGUS' no est'' @ a_acute
                                        @ '' en ['AEAT', 'FORAL_NAVARRA', 'FORAL_PV']'')))
           \<and> document w2 = document w1 \<and> stdin w2 = rest"
    using assms(2)
    by (simp add: resolve_step_def choose_value_def pbind_def py_input_def strip_BOGUS
        parse_input_def mf_irpf_regime_def str_of_regimes pread_def Let_def)
  have "resolve_missing fl (pre @ mf_irpf_regime # post) ''ask'' w
          = resolve_loop fl ''ask'' (pre @ mf_irpf_regime # post) [] w"
    by (simp add: resolve_missing_def)
  also have "\<dots> = resolve_loop fl ''ask'' (mf_irpf_regime # post) ws w1"
    by (simp add: resolve_loop_append assms(1))
  finally show ?thesis using step
    by (auto simp: pbind_def)
qed


theorem ask_bogus_regime_rejected_witness:
  "resolve_loop example_float_ops ''ask'' [] []
      \<lparr>document = JObj [], stdin = [''BOGUS''], stdout = []\<rparr>
     = (\<lparr>document = JObj [], stdin = [''BOGUS''], stdout = []\<rparr>, Inr [])
   \<and> stdin \<lparr>document = JObj [], stdin = [''BOGUS''], stdout = []\<rparr> = ''BOGUS'' # []
   \<and> (\<exists>w2. resolve_missing example_float_ops ([] @ mf_irpf_regime # []) ''ask''
              \<lparr>document = JObj [], stdin = [''BOGUS''], stdout = []\<rparr>
               = (w2, Inl (ValueError (''Valor 'BOGUS' no est'' @ a_acute
                                        @ '' en ['AEAT', 'FORAL_NAVARRA', 'FORAL_PV']'')))
           \<and> document w2 = document \<lparr>document = JObj [], stdin = [''BOGUS''], stdout = []\<rparr>
           \<and> stdin w2 = [])"
proof -
  have h1: "resolve_loop example_float_ops ''ask'' [] []
      \<lparr>document = JObj [], stdin = [''BOGUS''], stdout = []\<rparr>
     = (\<lparr>document = JObj [], stdin = [''BOGUS''], stdout = []\<rparr>, Inr [])"
    by (simp add: preturn_def)
  have h2: "stdin \<lparr>document = JObj [], stdin = [''BOGUS''], stdout = []\<rparr> = ''BOGUS'' # []"
    by simp
  show ?thesis
    using h1 h2 ask_bogus_regime_rejected [OF h1 h2, of "[]"] by blast
qed

theorem enrich_notes_witness:
  "(\<exists>d. enrich_region_config (JObj [(''region_config'', JObj [(''ccaa'', JStr ''Galicia'')])]) = Inr d
        \<and> lookup2 d ''region_config'' ''notes'' = Some (JStr []))
   \<and> enrich_region_config (JObj [(''period'', JObj [(''year'', JInt 2025)])])
        = Inr (JObj [(''period'', JObj [(''year'', JInt 2025)])])"
proof -
  have a: "\<exists>d. enrich_region_config (JObj [(''region_config'', JObj [(''ccaa'', JStr ''Galicia'')])]) = Inr d
        \<and> lookup2 d ''region_config'' ''notes'' = Some (JStr [])"
    using enrich_notes [of "JObj [(''region_config'', JObj [(''ccaa'', JStr ''Galicia'')])]"
        "JStr ''Galicia''"]
    by (simp add: lookup2_def)
  have b: "enrich_region_config (JObj [(''period'', JObj [(''year'', JInt 2025)])])
        = Inr (JObj [(''period'', JObj [(''year'', JInt 2025)])])"
    by (simp add: enrich_region_config_def ebind_def)
  from a b show ?thesis by simp
qed

subsection \<open>Determinism under policy \<^verbatim>\<open>default\<close>\<close>

lemma resolve_step_no_ask:
  assumes "policy \<noteq> ''ask''"
  shows "\<exists>d r. \<forall>w. document w = p \<longrightarrow> resolve_step fl policy m ws w = (w\<lparr>document := d\<rparr>, r)"
proof -
  define f where "f = (if path m = ''compensation.plus_convenio_amount''
               then set_plus_convenio fl (default' m)
               else (\<lambda>p. case set_by_path p (split (CHR ''.'') (path m)) (default' m) of
                           (p', None) \<Rightarrow> (p', Inr ())
                         | (p', Some e) \<Rightarrow> (p', Inl e)))"
  obtain d r where fr: "f p = (d, r)" by (cases "f p")
  have "\<forall>w. document w = p \<longrightarrow> resolve_step fl policy m ws w
        = (w\<lparr>document := d\<rparr>,
           case r of Inl e \<Rightarrow> Inl e
           | Inr u \<Rightarrow> Inr (ws @ [''Valor por defecto aplicado en '' @ path m @ '': ''
                             @ py_str fl (default' m)]))"
    using assms fr
    by (auto simp: resolve_step_def choose_value_def pbind_def preturn_def on_payload_def f_def
        simp del: set_by_path.simps split: sum.splits)
  then show ?thesis by blast
qed

lemma resolve_loop_no_ask:
  assumes "policy \<noteq> ''ask''"
  shows "\<exists>d r. \<forall>w. document w = p \<longrightarrow> resolve_loop fl policy ms ws w = (w\<lparr>document := d\<rparr>, r)"
proof (induction ms arbitrary: p ws)
  case Nil
  have "\<forall>w. document w = p \<longrightarrow> resolve_loop fl policy [] ws w = (w\<lparr>document := p\<rparr>, Inr ws)"
    by (auto simp: preturn_def)
  then show ?case by blast
next
  case (Cons m ms)
  obtain d1 r1 where s: "\<forall>w. document w = p \<longrightarrow> resolve_step fl policy m ws w = (w\<lparr>document := d1\<rparr>, r1)"
    using resolve_step_no_ask [OF assms] by blast
  show ?case
  proof (cases r1)
    case (Inl e)
    with s have "\<forall>w. document w = p \<longrightarrow> resolve_loop fl policy (m # ms) ws w = (w\<lparr>document := d1\<rparr>, Inl e)"
      by (simp add: pbind_def)
    then show ?thesis by blast
  next
    case (Inr ws1)
    obtain d2 r2 where l: "\<forall>w. document w = d1 \<longrightarrow> resolve_loop fl policy ms ws1 w = (w\<lparr>document := d2\<rparr>, r2)"
      using Cons.IH by blast
    have "\<forall>w. document w = p \<longrightarrow> resolve_loop fl policy (m # ms) ws w = (w\<lparr>document := d2\<rparr>, r2)"
    proof (intro allI impI)
      fix w :: world
      assume "document w = p"
      with s Inr have "resolve_step fl policy m ws w = (w\<lparr>document := d1\<rparr>, Inr ws1)" by simp
      moreover have "resolve_loop fl policy ms ws1 (w\<lparr>document := d1\<rparr>) = (w\<lparr>document := d1, document := d2\<rparr>, r2)"
        using l by simp
      ultimately show "resolve_loop fl policy (m # ms) ws w = (w\<lparr>document := d2\<rparr>, r2)"
        by (simp add: pbind_def)
    qed
    then show ?thesis by blast
  qed
qed

lemma resolve_missing_no_ask:
  assumes "policy \<noteq> ''ask''"
  shows "\<exists>d r. \<forall>w. document w = p \<longrightarrow> resolve_missing fl ms policy w = (w\<lparr>document := d\<rparr>, r)"
proof -
  obtain d r where l: "\<forall>w. document w = p \<longrightarrow> resolve_loop fl policy ms [] w = (w\<lparr>document := d\<rparr>, r)"
    using resolve_loop_no_ask [OF assms] by blast
  show ?thesis
  proof (cases "ms = [] \<or> policy = ''fail''")
    case True
    then have "\<forall>w. document w = p \<longrightarrow> resolve_missing fl ms policy w
        = (w\<lparr>document := p\<rparr>, if ms = [] then Inr [] else Inl (ValueError (''Faltan datos cr'' @ i_acute @ ''ticos: '' @ join ''; '' (map path ms))))"
      by (auto simp: resolve_missing_def preturn_def praise_def)
    then show ?thesis by blast
  next
    case False
    with l show ?thesis by (auto simp: resolve_missing_def)
  qed
qed

text \<open>
  C6. Under policy \<^verbatim>\<open>default\<close> two runs of the detector followed by the resolver on equal
  documents end with equal documents and equal outcomes (the same warnings in the same
  order, or the same exception), whatever the console holds.
\<close>

theorem default_pipeline_deterministic:
  assumes "document w1 = document w2"
  shows "document (fst (detect_and_resolve fl ''default'' w1))
           = document (fst (detect_and_resolve fl ''default'' w2))
       \<and> snd (detect_and_resolve fl ''default'' w1) = snd (detect_and_resolve fl ''default'' w2)"
proof -
  obtain p1 r1 where d: "detect_missing fl (document w2) = (p1, r1)"
    by (cases "detect_missing fl (document w2)")
  show ?thesis
  proof (cases r1)
    case (Inl e)
    with d assms show ?thesis
      by (simp add: detect_and_resolve_def pbind_def on_payload_def)
  next
    case (Inr ms)
    obtain d2 r2 where l: "\<forall>w. document w = p1 \<longrightarrow> resolve_missing fl ms ''default'' w = (w\<lparr>document := d2\<rparr>, r2)"
    proof -
      have "''default'' \<noteq> ''ask''" by simp
      from resolve_missing_no_ask [OF this] show ?thesis
        using that by blast
    qed
    have "detect_and_resolve fl ''default'' w = (w\<lparr>document := d2\<rparr>, r2)" if "document w = document w2" for w
      using that d Inr l by (simp add: detect_and_resolve_def pbind_def on_payload_def)
    from this [of w1] this [of w2] assms show ?thesis by simp
  qed
qed


theorem default_pipeline_deterministic_witness:
  "document \<lparr>document = JObj [], stdin = [], stdout = []\<rparr>
     = document \<lparr>document = JObj [], stdin = [''2025''], stdout = [''> '']\<rparr>
   \<and> document (fst (detect_and_resolve example_float_ops ''default''
                       \<lparr>document = JObj [], stdin = [], stdout = []\<rparr>))
       = document (fst (detect_and_resolve example_float_ops ''default''
                       \<lparr>document = JObj [], stdin = [''2025''], stdout = [''> '']\<rparr>))
   \<and> snd (detect_and_resolve example_float_ops ''default''
             \<lparr>document = JObj [], stdin = [], stdout = []\<rparr>)
       = snd (detect_and_resolve example_float_ops ''default''
             \<lparr>document = JObj [], stdin = [''2025''], stdout = [''> '']\<rparr>)"
  using default_pipeline_deterministic [of "\<lparr>document = JObj [], stdin = [], stdout = []\<rparr>"
      "\<lparr>document = JObj [], stdin = [''2025''], stdout = [''> '']\<rparr>" example_float_ops]
  by simp

subsection \<open>What the detector returns\<close>

lemma pbind_Inr:
  "pbind m f s = (s', Inr x) \<longleftrightarrow> (\<exists>s1 y. m s = (s1, Inr y) \<and> f y s1 = (s', Inr x))"
  by (auto simp: pbind_def split: prod.splits sum.splits)

lemma pread_Inr: "pread g s = (s', Inr x) \<longleftrightarrow> s' = s \<and> g s = Inr x"
  by (auto simp: pread_def)

lemma pmodify_Inr: "pmodify g s = (s', Inr x) \<longleftrightarrow> g s = Inr (s', x)"
  by (auto simp: pmodify_def split: sum.splits)

lemma preturn_Inr: "preturn y s = (s', Inr x) \<longleftrightarrow> s' = s \<and> x = y"
  by (auto simp: preturn_def)

lemma ebind_Inr: "ebind m f = Inr x \<longleftrightarrow> (\<exists>y. m = Inr y \<and> f y = Inr x)"
  by (auto simp: ebind_def split: sum.splits)

lemma py_get_Inr: "py_get d k dflt = Inr v \<longleftrightarrow> is_dict d \<and> v = (case lookup d k of None \<Rightarrow> dflt | Some x \<Rightarrow> x)"
  by (cases d) auto

lemma get_get_Inr:
  "is_dict p \<Longrightarrow>
   ebind (py_get p a (JObj [])) (\<lambda>s. py_get s b JNull) = Inr v \<longleftrightarrow> section_ok p a \<and> v = get2 p a b"
  by (cases p) (auto simp: ebind_Inr py_get_Inr section_ok_def get2_def lookup2_def split: option.splits)

lemma py_setdefault_Inr:
  "py_setdefault d k dflt = Inr (d', v) \<longleftrightarrow>
     is_dict d \<and> v = (case lookup d k of None \<Rightarrow> dflt | Some x \<Rightarrow> x)
     \<and> d' = (case d of JObj kvs \<Rightarrow> (case map_of kvs k of None \<Rightarrow> JObj (kvs @ [(k, dflt)]) | Some x \<Rightarrow> d) | _ \<Rightarrow> d)"
  by (cases d) (auto split: option.splits)

lemma has_plus_is_dict: "has_plus_convenio p a b = Inr h \<Longrightarrow> is_dict p"
  by (cases p) (auto simp: has_plus_convenio_def ebind_def)

lemma lookup_setdefault:
  "lookup (case map_of kvs k of None \<Rightarrow> JObj (kvs @ [(k, dflt)]) | Some x \<Rightarrow> JObj kvs) k'
     = (if k' = k \<and> map_of kvs k = None then Some dflt else map_of kvs k')"
  by (auto simp: map_add_def split: option.splits)

lemma detect_fwd:
  assumes "detect_missing fl p = (p', Inr ms)"
  shows "\<exists>hpa hpc p1 company cnae atep y p2 tables coti irpf cra nif reg.
        has_plus_convenio p ''collective_agreement'' ''allowances'' = Inr hpa
      \<and> has_plus_convenio p ''compensation'' ''variables'' = Inr hpc
      \<and> py_setdefault p ''company'' (JObj []) = Inr (p1, company)
      \<and> py_get company ''cnae'' JNull = Inr cnae
      \<and> py_get company ''atep_tariff_pct'' JNull = Inr atep
      \<and> ebind (py_get p1 ''period'' (JObj [])) (\<lambda>period. py_get period ''year'' JNull) = Inr y
      \<and> py_setdefault p1 ''tables'' (JObj []) = Inr (p2, tables)
      \<and> py_get tables ''cotization_year'' JNull = Inr coti
      \<and> py_get tables ''irpf_year'' JNull = Inr irpf
      \<and> ebind (py_get p2 ''compensation'' (JObj [])) (\<lambda>c. py_get c ''base_salary_cra_code'' JNull) = Inr cra
      \<and> ebind (py_get p2 ''worker'' (JObj [])) (\<lambda>c. py_get c ''nif'' JNull) = Inr nif
      \<and> ebind (py_get p2 ''region_config'' (JObj [])) (\<lambda>c. py_get c ''irpf_regime'' JNull) = Inr reg
      \<and> p' = p2
      \<and> ms = (if hpa \<and> \<not> hpc then [mf_plus_convenio] else [])
     @ (if \<not> truthy cnae \<and> \<not> truthy atep then [mf_atep] else [])
     @ (if \<not> truthy coti then [mf_cotization_year fl y] else [])
     @ (if \<not> truthy irpf then [mf_irpf_year fl y] else [])
     @ (if \<not> truthy cra then [mf_cra_code] else [])
     @ (if \<not> truthy nif then [mf_nif] else [])
     @ (if \<not> truthy reg then [mf_irpf_regime] else [])"
  using assms
  apply (simp only: detect_missing_def pbind_Inr pread_Inr pmodify_Inr preturn_Inr Let_def)
  apply (elim exE conjE)
  apply (simp only: append_assoc)
  apply blast
  done


lemma setdefault_section:
  assumes "py_setdefault p a (JObj []) = Inr (p1, s)"
  shows "is_dict p" and "is_dict p1"
    and "s = (case lookup p a of None \<Rightarrow> JObj [] | Some x \<Rightarrow> x)"
    and "lookup p1 a' = (if a' = a \<and> lookup p a = None then Some (JObj []) else lookup p a')"
  using assms by (cases p; auto simp: map_add_def split: option.splits)+

lemma setdefault_section_ok:
  assumes "py_setdefault p a (JObj []) = Inr (p1, s)"
  shows "section_ok p1 a' = section_ok p a'"
  using setdefault_section(4) [OF assms] by (simp add: section_ok_def)

lemma setdefault_get2:
  assumes "py_setdefault p a (JObj []) = Inr (p1, s)"
  shows "get2 p1 a' b = get2 p a' b"
  using setdefault_section(4) [OF assms] by (simp add: get2_def lookup2_def)

lemma setdefault_lookup2:
  assumes "py_setdefault p a (JObj []) = Inr (p1, s)"
  shows "lookup2 p1 a' b = lookup2 p a' b"
  using setdefault_section(4) [OF assms] by (simp add: lookup2_def)

lemma setdefault_field:
  assumes "py_setdefault p a (JObj []) = Inr (p1, s)"
  shows "py_get s b JNull = Inr v \<longleftrightarrow> section_ok p a \<and> v = get2 p a b"
  using setdefault_section(3) [OF assms]
  by (auto simp: py_get_Inr section_ok_def get2_def lookup2_def split: option.splits)

lemma setdefault_total: "is_dict p \<Longrightarrow> \<exists>p1 s. py_setdefault p a d = Inr (p1, s)"
proof (cases p)
  case (JObj kvs)
  then show ?thesis by (cases "map_of kvs a") auto
qed auto

text \<open>The detector returns normally exactly when the two \<^verbatim>\<open>any\<close> tests return and
  the six sections it reads are absent or dicts; the gaps are then those of the seven
  rules, and the document has gained \<^verbatim>\<open>company\<close> and \<^verbatim>\<open>tables\<close> when they were absent.\<close>

lemma detect_missing_returns:
  "detect_missing fl p = (p', Inr ms) \<longleftrightarrow>
     (\<exists>hpa hpc.
        has_plus_convenio p ''collective_agreement'' ''allowances'' = Inr hpa
      \<and> has_plus_convenio p ''compensation'' ''variables'' = Inr hpc
      \<and> section_ok p ''company'' \<and> section_ok p ''period'' \<and> section_ok p ''tables''
      \<and> section_ok p ''compensation'' \<and> section_ok p ''worker'' \<and> section_ok p ''region_config''
      \<and> p' = with_sections p
      \<and> ms = rule_gaps fl hpa hpc p)"
  (is "?L \<longleftrightarrow> ?R")
proof
  assume ?L
  from detect_fwd [OF this] obtain hpa hpc p1 company cnae atep y p2 tables coti irpf cra nif reg
    where h: "has_plus_convenio p ''collective_agreement'' ''allowances'' = Inr hpa"
      "has_plus_convenio p ''compensation'' ''variables'' = Inr hpc"
      and c: "py_setdefault p ''company'' (JObj []) = Inr (p1, company)"
      and c1: "py_get company ''cnae'' JNull = Inr cnae"
      and c2: "py_get company ''atep_tariff_pct'' JNull = Inr atep"
      and y: "ebind (py_get p1 ''period'' (JObj [])) (\<lambda>period. py_get period ''year'' JNull) = Inr y"
      and t: "py_setdefault p1 ''tables'' (JObj []) = Inr (p2, tables)"
      and t1: "py_get tables ''cotization_year'' JNull = Inr coti"
      and t2: "py_get tables ''irpf_year'' JNull = Inr irpf"
      and r1: "ebind (py_get p2 ''compensation'' (JObj [])) (\<lambda>c. py_get c ''base_salary_cra_code'' JNull) = Inr cra"
      and r2: "ebind (py_get p2 ''worker'' (JObj [])) (\<lambda>c. py_get c ''nif'' JNull) = Inr nif"
      and r3: "ebind (py_get p2 ''region_config'' (JObj [])) (\<lambda>c. py_get c ''irpf_regime'' JNull) = Inr reg"
      and p': "p' = p2"
      and ms: "ms = (if hpa \<and> \<not> hpc then [mf_plus_convenio] else [])
     @ (if \<not> truthy cnae \<and> \<not> truthy atep then [mf_atep] else [])
     @ (if \<not> truthy coti then [mf_cotization_year fl y] else [])
     @ (if \<not> truthy irpf then [mf_irpf_year fl y] else [])
     @ (if \<not> truthy cra then [mf_cra_code] else [])
     @ (if \<not> truthy nif then [mf_nif] else [])
     @ (if \<not> truthy reg then [mf_irpf_regime] else [])"
    by blast
  note d1 = setdefault_section(2) [OF c] and d2 = setdefault_section(2) [OF t]
  have so: "section_ok p2 a = section_ok p a" for a
    by (simp add: setdefault_section_ok [OF t] setdefault_section_ok [OF c])
  have g2: "get2 p2 a b = get2 p a b" for a b
    by (simp add: setdefault_get2 [OF t] setdefault_get2 [OF c])
  from c1 have "section_ok p ''company''" "cnae = get2 p ''company'' ''cnae''"
    by (simp_all add: setdefault_field [OF c])
  moreover from c2 have "atep = get2 p ''company'' ''atep_tariff_pct''"
    by (simp add: setdefault_field [OF c])
  moreover from y have "section_ok p ''period''" "y = get2 p ''period'' ''year''"
    by (simp_all add: get_get_Inr [OF d1] setdefault_section_ok [OF c] setdefault_get2 [OF c])
  moreover from t1 have "section_ok p ''tables''" "coti = get2 p ''tables'' ''cotization_year''"
    by (simp_all add: setdefault_field [OF t] setdefault_section_ok [OF c] setdefault_get2 [OF c])
  moreover from t2 have "irpf = get2 p ''tables'' ''irpf_year''"
    by (simp add: setdefault_field [OF t] setdefault_get2 [OF c])
  moreover from r1 have "section_ok p ''compensation''" "cra = get2 p ''compensation'' ''base_salary_cra_code''"
    by (simp_all add: get_get_Inr [OF d2] so g2)
  moreover from r2 have "section_ok p ''worker''" "nif = get2 p ''worker'' ''nif''"
    by (simp_all add: get_get_Inr [OF d2] so g2)
  moreover from r3 have "section_ok p ''region_config''" "reg = get2 p ''region_config'' ''irpf_regime''"
    by (simp_all add: get_get_Inr [OF d2] so g2)
  moreover have "p2 = with_sections p"
    using c t by (simp add: with_sections_def)
  ultimately show ?R
    using h p' ms by (simp add: rule_gaps_def)
next
  assume ?R
  then obtain hpa hpc where h: "has_plus_convenio p ''collective_agreement'' ''allowances'' = Inr hpa"
      "has_plus_convenio p ''compensation'' ''variables'' = Inr hpc"
    and so: "section_ok p ''company''" "section_ok p ''period''" "section_ok p ''tables''"
      "section_ok p ''compensation''" "section_ok p ''worker''" "section_ok p ''region_config''"
    and p': "p' = with_sections p" and ms: "ms = rule_gaps fl hpa hpc p"
    by blast
  have dp: "is_dict p" using h(1) by (rule has_plus_is_dict)
  obtain p1 company where c: "py_setdefault p ''company'' (JObj []) = Inr (p1, company)"
    using setdefault_total [OF dp] by blast
  note d1 = setdefault_section(2) [OF c]
  obtain p2 tables where t: "py_setdefault p1 ''tables'' (JObj []) = Inr (p2, tables)"
    using setdefault_total [OF d1] by blast
  note d2 = setdefault_section(2) [OF t]
  have so2: "section_ok p2 a = section_ok p a" for a
    by (simp add: setdefault_section_ok [OF t] setdefault_section_ok [OF c])
  have g2: "get2 p2 a b = get2 p a b" for a b
    by (simp add: setdefault_get2 [OF t] setdefault_get2 [OF c])
  have c1: "py_get company b JNull = Inr (get2 p ''company'' b)" for b
    using so(1) by (simp add: setdefault_field [OF c])
  have t1: "py_get tables b JNull = Inr (get2 p ''tables'' b)" for b
    using so(3) by (simp add: setdefault_field [OF t] setdefault_section_ok [OF c] setdefault_get2 [OF c])
  have y: "ebind (py_get p1 ''period'' (JObj [])) (\<lambda>period. py_get period ''year'' JNull) = Inr (get2 p ''period'' ''year'')"
    using so(2) by (simp add: get_get_Inr [OF d1] setdefault_section_ok [OF c] setdefault_get2 [OF c])
  have r: "ebind (py_get p2 ''compensation'' (JObj [])) (\<lambda>c. py_get c ''base_salary_cra_code'' JNull) = Inr (get2 p ''compensation'' ''base_salary_cra_code'')"
    "ebind (py_get p2 ''worker'' (JObj [])) (\<lambda>c. py_get c ''nif'' JNull) = Inr (get2 p ''worker'' ''nif'')"
    "ebind (py_get p2 ''region_config'' (JObj [])) (\<lambda>c. py_get c ''irpf_regime'' JNull) = Inr (get2 p ''region_config'' ''irpf_regime'')"
    using so(4-6) by (simp_all add: get_get_Inr [OF d2] so2 g2)
  have w: "with_sections p = p2"
    using c t by (simp add: with_sections_def)
  show ?L
    unfolding detect_missing_def pbind_def pread_def pmodify_def preturn_def Let_def p' ms w rule_gaps_def
    by (simp add: h c c1 t t1 y r)
qed

subsection \<open>Gaps and values already present\<close>

text \<open>
  C5, as stated, fails: the rules test truthiness (\<^verbatim>\<open>not company.get("atep_tariff_pct")\<close>),
  so a document that holds the value \<^verbatim>\<open>0.0\<close> at \<^verbatim>\<open>company.atep_tariff_pct\<close> (and no CNAE) gets
  a gap for that path.
\<close>

theorem detect_reports_present_value_counterexample:
  "detect_missing example_float_ops
     (JObj [(''company'', JObj [(''atep_tariff_pct'', JFloat (Finite 0))]),
            (''tables'', JObj [(''cotization_year'', JInt 2025), (''irpf_year'', JInt 2025)]),
            (''compensation'', JObj [(''base_salary_cra_code'', JStr ''C01'')]),
            (''worker'', JObj [(''nif'', JStr ''12345678Z'')]),
            (''region_config'', JObj [(''irpf_regime'', JStr ''AEAT'')])])
   = (JObj [(''company'', JObj [(''atep_tariff_pct'', JFloat (Finite 0))]),
            (''tables'', JObj [(''cotization_year'', JInt 2025), (''irpf_year'', JInt 2025)]),
            (''compensation'', JObj [(''base_salary_cra_code'', JStr ''C01'')]),
            (''worker'', JObj [(''nif'', JStr ''12345678Z'')]),
            (''region_config'', JObj [(''irpf_regime'', JStr ''AEAT'')])],
      Inr [mf_atep])
   \<and> lookup_path
        (JObj [(''company'', JObj [(''atep_tariff_pct'', JFloat (Finite 0))]),
            (''tables'', JObj [(''cotization_year'', JInt 2025), (''irpf_year'', JInt 2025)]),
            (''compensation'', JObj [(''base_salary_cra_code'', JStr ''C01'')]),
            (''worker'', JObj [(''nif'', JStr ''12345678Z'')]),
            (''region_config'', JObj [(''irpf_regime'', JStr ''AEAT'')])])
        (split (CHR ''.'') (path mf_atep)) = Some (JFloat (Finite 0))"
  by (simp add: detect_missing_def pbind_def pread_def pmodify_def preturn_def
      has_plus_convenio_def ebind_def mf_atep_def)

lemma falsy_get2:
  "\<not> truthy (get2 p a b) \<longleftrightarrow> (case lookup_path p [a, b] of None \<Rightarrow> True | Some v \<Rightarrow> \<not> truthy v)"
  by (auto simp: get2_def lookup2_def split: option.splits)

lemma in_set_if_single: "x \<in> set (if c then [y] else []) \<longleftrightarrow> c \<and> x = y"
  by auto

text \<open>
  C5, amended. Every gap the detector returns is at a path where the document has no
  value or a falsy one (\<^verbatim>\<open>None\<close>, \<^verbatim>\<open>False\<close>, zero, an empty string, list or dict); the gap of
  the allowance special case is returned only when an allowance is named
  \<^verbatim>\<open>plus convenio\<close> and no variable-pay item is.
\<close>

theorem detect_reports_only_falsy:
  assumes "detect_missing fl p = (p', Inr ms)" and "m \<in> set ms"
  shows "if path m = ''compensation.plus_convenio_amount''
         then has_plus_convenio p ''collective_agreement'' ''allowances'' = Inr True
              \<and> has_plus_convenio p ''compensation'' ''variables'' = Inr False
         else (case lookup_path p (split (CHR ''.'') (path m)) of
                 None \<Rightarrow> True
               | Some v \<Rightarrow> \<not> truthy v)"
proof -
  from assms(1) obtain hpa hpc where
    h: "has_plus_convenio p ''collective_agreement'' ''allowances'' = Inr hpa"
       "has_plus_convenio p ''compensation'' ''variables'' = Inr hpc"
    and ms: "ms = rule_gaps fl hpa hpc p"
    unfolding detect_missing_returns by blast
  from assms(2) have "m \<in> set (rule_gaps fl hpa hpc p)"
    by (simp add: ms)
  then consider
      "m = mf_plus_convenio" "hpa" "\<not> hpc"
    | "m = mf_atep" "\<not> truthy (get2 p ''company'' ''atep_tariff_pct'')"
    | "m = mf_cotization_year fl (get2 p ''period'' ''year'')"
      "\<not> truthy (get2 p ''tables'' ''cotization_year'')"
    | "m = mf_irpf_year fl (get2 p ''period'' ''year'')" "\<not> truthy (get2 p ''tables'' ''irpf_year'')"
    | "m = mf_cra_code" "\<not> truthy (get2 p ''compensation'' ''base_salary_cra_code'')"
    | "m = mf_nif" "\<not> truthy (get2 p ''worker'' ''nif'')"
    | "m = mf_irpf_regime" "\<not> truthy (get2 p ''region_config'' ''irpf_regime'')"
    unfolding rule_gaps_def set_append Un_iff in_set_if_single by blast
  then show ?thesis
  proof cases
    case 1
    with h show ?thesis by (simp add: mf_plus_convenio_def)
  next
    case 2
    then show ?thesis by (simp add: mf_atep_def falsy_get2)
  next
    case 3
    then show ?thesis by (simp add: mf_cotization_year_def falsy_get2)
  next
    case 4
    then show ?thesis by (simp add: mf_irpf_year_def falsy_get2)
  next
    case 5
    then show ?thesis by (simp add: mf_cra_code_def falsy_get2)
  next
    case 6
    then show ?thesis by (simp add: mf_nif_def falsy_get2)
  next
    case 7
    then show ?thesis by (simp add: mf_irpf_regime_def falsy_get2)
  qed
qed

theorem detect_reports_only_falsy_witness:
  "detect_missing example_float_ops (JObj [])
     = (JObj [(''company'', JObj []), (''tables'', JObj [])],
        Inr [mf_atep, mf_cotization_year example_float_ops JNull,
             mf_irpf_year example_float_ops JNull, mf_cra_code, mf_nif, mf_irpf_regime])
   \<and> mf_nif \<in> set [mf_atep, mf_cotization_year example_float_ops JNull,
                       mf_irpf_year example_float_ops JNull, mf_cra_code, mf_nif, mf_irpf_regime]
   \<and> lookup_path (JObj []) (split (CHR ''.'') (path mf_nif)) = None"
proof -
  have h1: "detect_missing example_float_ops (JObj [])
     = (JObj [(''company'', JObj []), (''tables'', JObj [])],
        Inr [mf_atep, mf_cotization_year example_float_ops JNull,
             mf_irpf_year example_float_ops JNull, mf_cra_code, mf_nif, mf_irpf_regime])"
    by (simp add: detect_missing_def pbind_def pread_def pmodify_def preturn_def
        has_plus_convenio_def ebind_def)
  have h2: "mf_nif \<in> set [mf_atep, mf_cotization_year example_float_ops JNull,
                       mf_irpf_year example_float_ops JNull, mf_cra_code, mf_nif, mf_irpf_regime]"
    by simp
  from detect_reports_only_falsy [OF h1 h2]
  have "lookup_path (JObj []) (split (CHR ''.'') (path mf_nif)) = None"
    by (simp add: mf_nif_def)
  with h1 h2 show ?thesis by blast
qed

subsection \<open>Effect of the generic assignment on a two-segment path\<close>

lemma is_dict_put2: "is_dict d \<Longrightarrow> is_dict (put2 d a b v)"
  by (cases d) auto

lemma lookup_put2:
  "is_dict d \<Longrightarrow>
   lookup (put2 d a b v) a'
     = (if a' = a then Some (JObj (AList.update b v (section_items (lookup d a)))) else lookup d a')"
  by (cases d) (auto simp: update_conv')

lemma section_items_lookup:
  "section_ok d a \<Longrightarrow> map_of (section_items (lookup d a)) b = lookup2 d a b"
  by (cases "lookup d a"; cases "the (lookup d a)") (auto simp: section_ok_def lookup2_def)

lemma lookup2_put2:
  "is_dict d \<Longrightarrow> section_ok d a \<Longrightarrow>
   lookup2 (put2 d a b v) a' b' = (if a' = a \<and> b' = b then Some v else lookup2 d a' b')"
  using section_items_lookup [of d a b']
  by (auto simp: lookup2_def [of "put2 d a b v"] lookup_put2 update_conv') (simp add: lookup2_def)


lemma section_ok_put2:
  "is_dict d \<Longrightarrow> section_ok (put2 d a b v) a' \<longleftrightarrow> a' = a \<or> section_ok d a'"
  by (auto simp: section_ok_def lookup_put2)

lemma lookup_put2_present:
  "is_dict d \<Longrightarrow> lookup d a' \<noteq> None \<Longrightarrow> lookup (put2 d a b v) a' \<noteq> None"
  by (simp add: lookup_put2)

lemma set_by_path_put2:
  assumes "is_dict d" and "section_ok d a"
  shows "set_by_path d [a, b] v = (put2 d a b v, None)"
proof -
  from assms(1) obtain kvs where d: "d = JObj kvs" by (cases d) auto
  show ?thesis
  proof (cases "map_of kvs a")
    case None
    then show ?thesis by (simp add: d ebind_def update_conv')
  next
    case (Some x)
    with assms(2) d obtain s where "x = JObj s" by (cases x) (auto simp: section_ok_def)
    with Some show ?thesis by (simp add: d ebind_def update_conv' update_same)
  qed
qed

lemma has_plus_convenio_eq:
  "has_plus_convenio d a b =
     (if is_dict d \<and> section_ok d a
      then ebind (py_iter (case lookup2 d a b of None \<Rightarrow> JList [] | Some v \<Rightarrow> v)) any_plus_convenio
      else Inl AttributeError)"
proof (cases d)
  case (JObj kvs)
  show ?thesis
  proof (cases "map_of kvs a")
    case None
    then show ?thesis by (simp add: JObj has_plus_convenio_def ebind_def section_ok_def lookup2_def)
  next
    case (Some x)
    then show ?thesis
      by (cases x) (auto simp: JObj has_plus_convenio_def ebind_def section_ok_def lookup2_def split: option.splits)
  qed
qed (auto simp: has_plus_convenio_def ebind_def)

lemma has_plus_convenio_put2:
  assumes "is_dict d" and "section_ok d a" and "(a', b') \<noteq> (a, b)"
  shows "has_plus_convenio (put2 d a b v) a' b' = has_plus_convenio d a' b'"
  using assms by (auto simp: has_plus_convenio_eq is_dict_put2 section_ok_put2 lookup2_put2)

subsection \<open>The value chosen for a gap\<close>

lemma space_at_start_0:
  "[] \<notin> set ps \<Longrightarrow> space_at_start ps s = 0 \<longleftrightarrow> (\<forall>p \<in> set ps. \<not> prefix p s)"
proof (cases "find (\<lambda>p. prefix p s) ps")
  case None
  then have "\<forall>p \<in> set ps. \<not> prefix p s" by (simp add: find_None_iff)
  with None show ?thesis by (simp add: space_at_start_def)
next
  case (Some p)
  then have "p \<in> set ps" "prefix p s" by (auto simp: find_Some_iff)
  moreover assume "[] \<notin> set ps"
  ultimately show ?thesis using Some by (auto simp: space_at_start_def)
qed

lemma lstrip_of_clean: "space_at_start ps (lstrip_of ps s) = 0"
  by (induction ps s rule: lstrip_of.induct) (subst lstrip_of.simps, simp)

lemma lstrip_of_id: "space_at_start ps s = 0 \<Longrightarrow> lstrip_of ps s = s"
  by (subst lstrip_of.simps) simp

lemma lstrip_of_suffix: "suffix (lstrip_of ps s) s"
proof (induction ps s rule: lstrip_of.induct)
  case (1 ps s)
  show ?case
  proof (cases "space_at_start ps s = 0")
    case True
    then show ?thesis by (simp add: lstrip_of_id)
  next
    case False
    from 1 [OF False] have "suffix (lstrip_of ps (drop (space_at_start ps s) s)) s"
      using suffix_drop suffix_order.trans by blast
    with False show ?thesis by (subst lstrip_of.simps) simp
  qed
qed

lemma no_empty_space: "[] \<notin> set whitespace" "[] \<notin> set (map rev whitespace)"
  by (simp_all add: whitespace_def)

text \<open>What \<^verbatim>\<open>strip\<close> returns has no white space left at either end.\<close>

lemma strip_idem: "strip (strip s) = strip s"
proof -
  define u where "u = lstrip s"
  define v where "v = rstrip u"
  have cu: "\<forall>p \<in> set whitespace. \<not> prefix p u"
    using lstrip_of_clean [of whitespace s]
    by (simp add: u_def lstrip_def space_at_start_0 no_empty_space)
  have "suffix (rev v) (rev u)" unfolding v_def rstrip_def by (simp add: lstrip_of_suffix)
  then have pv: "prefix v u" by (simp add: suffix_to_prefix)
  have cv: "\<forall>p \<in> set whitespace. \<not> prefix p v"
    using cu pv prefix_order.trans by blast
  then have l: "lstrip v = v"
    by (simp add: lstrip_def lstrip_of_id space_at_start_0 no_empty_space)
  have "space_at_start (map rev whitespace) (rev v) = 0"
    unfolding v_def rstrip_def by (simp add: lstrip_of_clean)
  then have "rstrip v = v" by (simp add: rstrip_def lstrip_of_id)
  with l show ?thesis by (simp add: strip_def u_def v_def)
qed

lemma strip_strip_nonempty: "strip s \<noteq> [] \<Longrightarrow> strip (strip s) \<noteq> []"
  by (simp add: strip_idem)

lemma choose_value_Inr:
  assumes "choose_value fl policy m ws w = (w', Inr (v, ws'))"
  shows "document w' = document w"
    and "set (stdin w') \<subseteq> set (stdin w)"
    and "(v = default' m \<and> (policy = ''ask'' \<longrightarrow> default' m \<noteq> JNull))
         \<or> (policy = ''ask'' \<and> (\<exists>l \<in> set (stdin w). strip l \<noteq> [] \<and> parse_input fl (strip l) m = Inr v))"
proof -
  show "document w' = document w"
    using assms
    by (cases "stdin w")
      (auto simp: choose_value_def pbind_def preturn_def praise_def pread_def py_input_def Let_def
        split: if_splits sum.splits)
  show "set (stdin w') \<subseteq> set (stdin w)"
    using assms
    by (cases "stdin w")
      (auto simp: choose_value_def pbind_def preturn_def praise_def pread_def py_input_def Let_def
        split: if_splits sum.splits)
  show "(v = default' m \<and> (policy = ''ask'' \<longrightarrow> default' m \<noteq> JNull))
         \<or> (policy = ''ask'' \<and> (\<exists>l \<in> set (stdin w). strip l \<noteq> [] \<and> parse_input fl (strip l) m = Inr v))"
    using assms
    by (cases "stdin w")
      (auto simp: choose_value_def pbind_def preturn_def praise_def pread_def py_input_def Let_def
        split: if_splits sum.splits)
qed

lemma parse_input_truthy:
  assumes "parse_input fl (strip l) m = Inr v" and "strip l \<noteq> []"
    and "float_of_str fl (replace_comma (strip l)) \<noteq> Some (Finite 0)"
  shows "truthy v"
  using assms strip_strip_nonempty [OF assms(2)]
  by (auto simp: parse_input_def ebind_def Let_def split: if_splits option.splits sum.splits)

subsection \<open>Resolving the gaps of the generic rules\<close>

lemma generic_gap_cases:
  assumes "m \<in> set (generic_gaps fl y)"
  obtains "m = mf_atep" "field_of m = (''company'', ''atep_tariff_pct'')"
  | "m = mf_cotization_year fl y" "field_of m = (''tables'', ''cotization_year'')"
  | "m = mf_irpf_year fl y" "field_of m = (''tables'', ''irpf_year'')"
  | "m = mf_cra_code" "field_of m = (''compensation'', ''base_salary_cra_code'')"
  | "m = mf_nif" "field_of m = (''worker'', ''nif'')"
  | "m = mf_irpf_regime" "field_of m = (''region_config'', ''irpf_regime'')"
proof -
  have "field_of mf_atep = (''company'', ''atep_tariff_pct'')"
    "field_of (mf_cotization_year fl y) = (''tables'', ''cotization_year'')"
    "field_of (mf_irpf_year fl y) = (''tables'', ''irpf_year'')"
    "field_of mf_cra_code = (''compensation'', ''base_salary_cra_code'')"
    "field_of mf_nif = (''worker'', ''nif'')"
    "field_of mf_irpf_regime = (''region_config'', ''irpf_regime'')"
    by (simp_all add: field_of_def mf_atep_def mf_cotization_year_def mf_irpf_year_def
        mf_cra_code_def mf_nif_def mf_irpf_regime_def)
  with assms that show ?thesis
    unfolding generic_gaps_def by auto
qed

lemma generic_gap_path:
  assumes "m \<in> set (generic_gaps fl y)"
  shows "split (CHR ''.'') (path m) = [fst (field_of m), snd (field_of m)]"
    and "path m \<noteq> ''compensation.plus_convenio_amount''"
    and "path m = fst (field_of m) @ ''.'' @ snd (field_of m)"
  using assms
  by (cases rule: generic_gap_cases;
      simp add: field_of_def mf_atep_def mf_cotization_year_def mf_irpf_year_def
        mf_cra_code_def mf_nif_def mf_irpf_regime_def)+

lemma generic_gap_section:
  assumes "m \<in> set (generic_gaps fl y)" and "detectable hpa hpc d"
  shows "section_ok d (fst (field_of m))" and "is_dict d"
  using assms by (cases rule: generic_gap_cases; simp add: detectable_def)+

lemma apply_generic:
  assumes "m \<in> set (generic_gaps fl y)" and "detectable hpa hpc (document w)"
  shows "on_payload
           (if path m = ''compensation.plus_convenio_amount''
            then set_plus_convenio fl v
            else (\<lambda>p. case set_by_path p (split (CHR ''.'') (path m)) v of
                        (p', None) \<Rightarrow> (p', Inr ())
                      | (p', Some e) \<Rightarrow> (p', Inl e))) w
         = (w\<lparr>document := put2 (document w) (fst (field_of m)) (snd (field_of m)) v\<rparr>, Inr ())"
  using generic_gap_path(1,2) [OF assms(1)] generic_gap_section [OF assms]
  by (simp add: on_payload_def set_by_path_put2 del: set_by_path.simps)

lemma detectable_put2:
  assumes "m \<in> set (generic_gaps fl y)" and "detectable hpa hpc d"
  shows "detectable hpa hpc (put2 d (fst (field_of m)) (snd (field_of m)) v)"
  using assms(1)
proof (cases rule: generic_gap_cases)
  case 1
  with assms(2) show ?thesis
    by (simp add: detectable_def is_dict_put2 section_ok_put2 has_plus_convenio_put2 lookup_put2)
next
  case 2
  with assms(2) show ?thesis
    by (simp add: detectable_def is_dict_put2 section_ok_put2 has_plus_convenio_put2 lookup_put2)
next
  case 3
  with assms(2) show ?thesis
    by (simp add: detectable_def is_dict_put2 section_ok_put2 has_plus_convenio_put2 lookup_put2)
next
  case 4
  with assms(2) show ?thesis
    by (simp add: detectable_def is_dict_put2 section_ok_put2 has_plus_convenio_put2 lookup_put2)
next
  case 5
  with assms(2) show ?thesis
    by (simp add: detectable_def is_dict_put2 section_ok_put2 has_plus_convenio_put2 lookup_put2)
next
  case 6
  with assms(2) show ?thesis
    by (simp add: detectable_def is_dict_put2 section_ok_put2 has_plus_convenio_put2 lookup_put2)
qed


lemma resolve_step_Inr:
  assumes "resolve_step fl policy m ws w = (w', Inr ws')"
  obtains w1 v where "choose_value fl policy m ws w = (w1, Inr (v, ws'))"
    and "on_payload
           (if path m = ''compensation.plus_convenio_amount''
            then set_plus_convenio fl v
            else (\<lambda>p. case set_by_path p (split (CHR ''.'') (path m)) v of
                        (p', None) \<Rightarrow> (p', Inr ())
                      | (p', Some e) \<Rightarrow> (p', Inl e))) w1 = (w', Inr ())"
  using assms
  by (auto simp: resolve_step_def pbind_def preturn_def split: prod.splits sum.splits
      simp del: set_by_path.simps)

lemma resolve_step_generic:
  assumes m: "m \<in> set (generic_gaps fl y)"
    and det: "detectable hpa hpc (document w)"
    and step: "resolve_step fl policy m ws w = (w', Inr ws')"
  shows "\<exists>v. document w' = put2 (document w) (fst (field_of m)) (snd (field_of m)) v
           \<and> ((truthy (default' m) \<or> (policy = ''ask'' \<and> default' m = JNull))
               \<and> (\<forall>l \<in> set (stdin w). float_of_str fl (replace_comma (strip l)) \<noteq> Some (Finite 0))
              \<longrightarrow> truthy v)"
    and "set (stdin w') \<subseteq> set (stdin w)"
proof -
  from step obtain w1 v where c: "choose_value fl policy m ws w = (w1, Inr (v, ws'))"
    and a: "on_payload
           (if path m = ''compensation.plus_convenio_amount''
            then set_plus_convenio fl v
            else (\<lambda>p. case set_by_path p (split (CHR ''.'') (path m)) v of
                        (p', None) \<Rightarrow> (p', Inr ())
                      | (p', Some e) \<Rightarrow> (p', Inl e))) w1 = (w', Inr ())"
    by (rule resolve_step_Inr)
  note cv = choose_value_Inr [OF c]
  from det cv(1) have det1: "detectable hpa hpc (document w1)" by simp
  from a apply_generic [OF m det1, of v]
  have w': "w' = w1\<lparr>document := put2 (document w1) (fst (field_of m)) (snd (field_of m)) v\<rparr>"
    by simp
  have "truthy v"
    if dflt: "truthy (default' m) \<or> (policy = ''ask'' \<and> default' m = JNull)"
      and inp: "\<forall>l \<in> set (stdin w). float_of_str fl (replace_comma (strip l)) \<noteq> Some (Finite 0)"
    using cv(3)
  proof
    assume "v = default' m \<and> (policy = ''ask'' \<longrightarrow> default' m \<noteq> JNull)"
    with dflt show ?thesis by auto
  next
    assume "policy = ''ask'' \<and> (\<exists>l \<in> set (stdin w). strip l \<noteq> [] \<and> parse_input fl (strip l) m = Inr v)"
    then obtain l where "l \<in> set (stdin w)" "strip l \<noteq> []" "parse_input fl (strip l) m = Inr v"
      by blast
    with inp show ?thesis
      using parse_input_truthy by blast
  qed
  with w' cv(1) show "\<exists>v. document w' = put2 (document w) (fst (field_of m)) (snd (field_of m)) v
           \<and> ((truthy (default' m) \<or> (policy = ''ask'' \<and> default' m = JNull))
               \<and> (\<forall>l \<in> set (stdin w). float_of_str fl (replace_comma (strip l)) \<noteq> Some (Finite 0))
              \<longrightarrow> truthy v)"
    by auto
  from w' cv(2) show "set (stdin w') \<subseteq> set (stdin w)"
    by simp
qed

lemma resolve_loop_generic_frame:
  assumes "set ms \<subseteq> set (generic_gaps fl y)"
    and "detectable hpa hpc (document w)"
    and "resolve_loop fl policy ms ws w = (w', Inr ws')"
  shows "detectable hpa hpc (document w')
       \<and> (\<forall>a b. (a, b) \<notin> field_of ` set ms \<longrightarrow> lookup2 (document w') a b = lookup2 (document w) a b)"
  using assms
proof (induction ms arbitrary: w ws)
  case Nil
  then show ?case by (simp add: preturn_def)
next
  case (Cons m ms)
  from Cons.prems(1) have m: "m \<in> set (generic_gaps fl y)" and ms: "set ms \<subseteq> set (generic_gaps fl y)"
    by auto
  from Cons.prems(3) obtain w1 ws1 where step: "resolve_step fl policy m ws w = (w1, Inr ws1)"
    and rest: "resolve_loop fl policy ms ws1 w1 = (w', Inr ws')"
    by (auto simp: pbind_def split: prod.splits sum.splits)
  from resolve_step_generic(1) [OF m Cons.prems(2) step]
  obtain v where w1: "document w1 = put2 (document w) (fst (field_of m)) (snd (field_of m)) v"
    by blast
  note sec = generic_gap_section [OF m Cons.prems(2)]
  have det1: "detectable hpa hpc (document w1)"
    unfolding w1 using m Cons.prems(2) by (rule detectable_put2)
  from Cons.IH [OF ms det1 rest] have d': "detectable hpa hpc (document w')"
    and l': "\<And>a b. (a, b) \<notin> field_of ` set ms \<Longrightarrow> lookup2 (document w') a b = lookup2 (document w1) a b"
    by blast+
  have frame: "lookup2 (document w1) a b = lookup2 (document w) a b" if "(a, b) \<noteq> field_of m" for a b
    using that unfolding w1 by (auto simp: lookup2_put2 [OF sec(2) sec(1)])
  have "lookup2 (document w') a b = lookup2 (document w) a b"
    if "(a, b) \<notin> field_of ` set (m # ms)" for a b
  proof -
    from that have "(a, b) \<notin> field_of ` set ms" "(a, b) \<noteq> field_of m" by auto
    then show ?thesis by (simp add: l' frame)
  qed
  with d' show ?case by blast
qed


subsection \<open>Resolving the allowance special case\<close>

lemma any_false_find_none: "any_plus_convenio xs = Inr False \<Longrightarrow> find_plus_convenio xs = Inr None"
  by (induction xs) (auto simp: ebind_def split: sum.splits if_splits)

lemma any_false_append: "any_plus_convenio xs = Inr False \<Longrightarrow> any_plus_convenio (xs @ ys) = any_plus_convenio ys"
  by (induction xs) (auto simp: ebind_def split: sum.splits if_splits)

lemma is_plus_convenio_item: "is_plus_convenio (plus_convenio_item a) = Inr True"
  by (simp add: is_plus_convenio_def plus_convenio_item_def ebind_def lower_def lower_char_def)

lemma update_absent: "map_of kvs k = None \<Longrightarrow> AList.update k v kvs = kvs @ [(k, v)]"
  by (induction kvs) auto

lemma update_appended: "map_of kvs k = None \<Longrightarrow> AList.update k v (kvs @ [(k, w)]) = kvs @ [(k, v)]"
  by (induction kvs) auto

lemma set_plus_convenio_append:
  assumes "is_dict d" and "section_ok d ''compensation''"
    and "variables_of d = JList xs"
    and "any_plus_convenio xs = Inr False"
    and "(if v \<noteq> JNull then py_float fl v else Inr (Finite 0)) = Inr a"
  shows "set_plus_convenio fl v d
           = (put2 d ''compensation'' ''variables'' (JList (xs @ [plus_convenio_item a])), Inr ())"
proof -
  from assms(1) obtain kvs where d: "d = JObj kvs" by (cases d) auto
  note f = any_false_find_none [OF assms(4)]
  show ?thesis
  proof (cases "map_of kvs ''compensation''")
    case None
    with assms(3) d have xs: "xs = []" by (simp add: variables_of_def lookup2_def)
    show ?thesis
      using None assms(5)
      by (simp add: d xs set_plus_convenio_def ebind_def update_appended update_absent
          new_plus_convenio_def plus_convenio_item_def map_add_def)
  next
    case (Some c)
    with assms(2) d obtain ckvs where c: "c = JObj ckvs"
      by (cases c) (auto simp: section_ok_def)
    show ?thesis
    proof (cases "map_of ckvs ''variables''")
      case None
      with assms(3) d Some c have xs: "xs = []" by (simp add: variables_of_def lookup2_def)
      show ?thesis
        using None Some c assms(5)
        by (simp add: d xs set_plus_convenio_def ebind_def update_appended update_absent
            new_plus_convenio_def plus_convenio_item_def map_add_def update_same)
    next
      case (Some vs)
      with assms(3) d \<open>map_of kvs ''compensation'' = Some c\<close> c have vs: "vs = JList xs"
        by (simp add: variables_of_def lookup2_def)
      show ?thesis
        using Some \<open>map_of kvs ''compensation'' = Some c\<close> c assms(5) f
        by (simp add: d vs set_plus_convenio_def ebind_def update_same
            new_plus_convenio_def plus_convenio_item_def nth_append)
    qed
  qed
qed

lemma has_plus_False:
  assumes "has_plus_convenio d ''compensation'' ''variables'' = Inr False"
  shows "is_dict d" and "section_ok d ''compensation''"
    and "\<exists>its. py_iter (variables_of d) = Inr its \<and> any_plus_convenio its = Inr False"
  using assms
  by (auto simp: has_plus_convenio_eq variables_of_def ebind_Inr split: if_splits)



subsection \<open>The document the detector leaves\<close>

lemma with_sections_props:
  assumes "is_dict p"
  shows "is_dict (with_sections p)"
    and "lookup (with_sections p) ''company'' \<noteq> None"
    and "lookup (with_sections p) ''tables'' \<noteq> None"
    and "section_ok (with_sections p) a = section_ok p a"
    and "lookup2 (with_sections p) a b = lookup2 p a b"
proof -
  obtain p1 c where c: "py_setdefault p ''company'' (JObj []) = Inr (p1, c)"
    using setdefault_total [OF assms] by blast
  note d1 = setdefault_section(2) [OF c]
  obtain p2 t where t: "py_setdefault p1 ''tables'' (JObj []) = Inr (p2, t)"
    using setdefault_total [OF d1] by blast
  have w: "with_sections p = p2"
    using c t by (simp add: with_sections_def)
  show "is_dict (with_sections p)"
    unfolding w by (rule setdefault_section(2) [OF t])
  show "lookup (with_sections p) ''company'' \<noteq> None"
    unfolding w by (simp add: setdefault_section(4) [OF t] setdefault_section(4) [OF c])
  show "lookup (with_sections p) ''tables'' \<noteq> None"
    unfolding w by (simp add: setdefault_section(4) [OF t] setdefault_section(4) [OF c])
  show "section_ok (with_sections p) a = section_ok p a"
    unfolding w by (simp add: setdefault_section_ok [OF t] setdefault_section_ok [OF c])
  show "lookup2 (with_sections p) a b = lookup2 p a b"
    unfolding w by (simp add: setdefault_lookup2 [OF t] setdefault_lookup2 [OF c])
qed


lemma detect_missing_detectable:
  assumes "detect_missing fl p = (p1, Inr ms)"
  obtains hpa hpc where "detectable hpa hpc p1" and "ms = rule_gaps fl hpa hpc p1"
    and "has_plus_convenio p ''collective_agreement'' ''allowances'' = Inr hpa"
    and "has_plus_convenio p ''compensation'' ''variables'' = Inr hpc"
    and "\<forall>a b. lookup2 p1 a b = lookup2 p a b"
proof -
  from assms obtain hpa hpc where
    h: "has_plus_convenio p ''collective_agreement'' ''allowances'' = Inr hpa"
       "has_plus_convenio p ''compensation'' ''variables'' = Inr hpc"
    and so: "section_ok p ''company''" "section_ok p ''period''" "section_ok p ''tables''"
      "section_ok p ''compensation''" "section_ok p ''worker''" "section_ok p ''region_config''"
    and p1: "p1 = with_sections p" and ms: "ms = rule_gaps fl hpa hpc p"
    unfolding detect_missing_returns by blast
  have dp: "is_dict p" using h(1) by (rule has_plus_is_dict)
  note ws = with_sections_props [OF dp]
  have hp: "has_plus_convenio p1 a b = has_plus_convenio p a b" for a b
    unfolding p1 by (simp add: has_plus_convenio_eq ws dp)
  have g: "get2 p1 a b = get2 p a b" for a b
    unfolding p1 by (simp add: get2_def ws)
  have "detectable hpa hpc p1"
    unfolding detectable_def hp using h so ws(1-3) by (simp add: p1 ws(4))
  moreover have "ms = rule_gaps fl hpa hpc p1"
    unfolding ms rule_gaps_def g ..
  moreover have "\<forall>a b. lookup2 p1 a b = lookup2 p a b"
    unfolding p1 by (simp add: ws(5))
  ultimately show ?thesis using that h by blast
qed

lemma rule_gaps_generic:
  "\<exists>gs. rule_gaps fl hpa hpc d = (if hpa \<and> \<not> hpc then [mf_plus_convenio] else []) @ gs
        \<and> set gs \<subseteq> set (generic_gaps fl (get2 d ''period'' ''year''))
        \<and> (\<forall>f \<in> set [(''company'', ''atep_tariff_pct''), (''tables'', ''cotization_year''),
                        (''tables'', ''irpf_year''), (''compensation'', ''base_salary_cra_code''),
                        (''worker'', ''nif''), (''region_config'', ''irpf_regime'')].
              field_filled d f \<or> f \<in> field_of ` set gs)"
proof -
  define y where "y = get2 d ''period'' ''year''"
  define g1 where "g1 = (if \<not> truthy (get2 d ''company'' ''cnae'') \<and> \<not> truthy (get2 d ''company'' ''atep_tariff_pct'')
        then [mf_atep] else [])"
  define g2 where "g2 = (if \<not> truthy (get2 d ''tables'' ''cotization_year'')
        then [mf_cotization_year fl y] else [])"
  define g3 where "g3 = (if \<not> truthy (get2 d ''tables'' ''irpf_year'') then [mf_irpf_year fl y] else [])"
  define g4 where "g4 = (if \<not> truthy (get2 d ''compensation'' ''base_salary_cra_code'') then [mf_cra_code] else [])"
  define g5 where "g5 = (if \<not> truthy (get2 d ''worker'' ''nif'') then [mf_nif] else [])"
  define g6 where "g6 = (if \<not> truthy (get2 d ''region_config'' ''irpf_regime'') then [mf_irpf_regime] else [])"
  note gdefs = g1_def g2_def g3_def g4_def g5_def g6_def
  have eq: "rule_gaps fl hpa hpc d = (if hpa \<and> \<not> hpc then [mf_plus_convenio] else []) @ (g1 @ g2 @ g3 @ g4 @ g5 @ g6)"
    unfolding rule_gaps_def gdefs y_def by simp
  have sub: "set (g1 @ g2 @ g3 @ g4 @ g5 @ g6) \<subseteq> set (generic_gaps fl y)"
    unfolding gdefs generic_gaps_def by auto
  have fo: "field_of mf_atep = (''company'', ''atep_tariff_pct'')"
    "field_of (mf_cotization_year fl y) = (''tables'', ''cotization_year'')"
    "field_of (mf_irpf_year fl y) = (''tables'', ''irpf_year'')"
    "field_of mf_cra_code = (''compensation'', ''base_salary_cra_code'')"
    "field_of mf_nif = (''worker'', ''nif'')"
    "field_of mf_irpf_regime = (''region_config'', ''irpf_regime'')"
    by (simp_all add: field_of_def mf_atep_def mf_cotization_year_def mf_irpf_year_def
        mf_cra_code_def mf_nif_def mf_irpf_regime_def)
  have f1: "field_filled d (''company'', ''atep_tariff_pct'') \<or> (''company'', ''atep_tariff_pct'') \<in> field_of ` set g1"
    unfolding g1_def field_filled_def using fo(1) by (auto simp del: truthy.simps)
  have f2: "field_filled d (''tables'', ''cotization_year'') \<or> (''tables'', ''cotization_year'') \<in> field_of ` set g2"
    unfolding g2_def field_filled_def using fo(2) by (auto simp del: truthy.simps)
  have f3: "field_filled d (''tables'', ''irpf_year'') \<or> (''tables'', ''irpf_year'') \<in> field_of ` set g3"
    unfolding g3_def field_filled_def using fo(3) by (auto simp del: truthy.simps)
  have f4: "field_filled d (''compensation'', ''base_salary_cra_code'') \<or> (''compensation'', ''base_salary_cra_code'') \<in> field_of ` set g4"
    unfolding g4_def field_filled_def using fo(4) by (auto simp del: truthy.simps)
  have f5: "field_filled d (''worker'', ''nif'') \<or> (''worker'', ''nif'') \<in> field_of ` set g5"
    unfolding g5_def field_filled_def using fo(5) by (auto simp del: truthy.simps)
  have f6: "field_filled d (''region_config'', ''irpf_regime'') \<or> (''region_config'', ''irpf_regime'') \<in> field_of ` set g6"
    unfolding g6_def field_filled_def using fo(6) by (auto simp del: truthy.simps)
  have "\<forall>f \<in> set [(''company'', ''atep_tariff_pct''), (''tables'', ''cotization_year''),
                        (''tables'', ''irpf_year''), (''compensation'', ''base_salary_cra_code''),
                        (''worker'', ''nif''), (''region_config'', ''irpf_regime'')].
              field_filled d f \<or> f \<in> field_of ` set (g1 @ g2 @ g3 @ g4 @ g5 @ g6)"
    using f1 f2 f3 f4 f5 f6 unfolding set_append image_Un by (simp only: list.set ball_simps Un_iff) blast
  with eq sub show ?thesis unfolding y_def by blast
qed



subsection \<open>Running the detector again\<close>

lemma mf_paths:
  "path mf_plus_convenio = ''compensation.plus_convenio_amount''"
  "path mf_atep = ''company.atep_tariff_pct''"
  "path (mf_cotization_year fl y) = ''tables.cotization_year''"
  "path (mf_irpf_year fl y) = ''tables.irpf_year''"
  "path mf_cra_code = ''compensation.base_salary_cra_code''"
  "path mf_nif = ''worker.nif''"
  "path mf_irpf_regime = ''region_config.irpf_regime''"
  by (simp_all add: mf_plus_convenio_def mf_atep_def mf_cotization_year_def mf_irpf_year_def
        mf_cra_code_def mf_nif_def mf_irpf_regime_def)


lemma detectable_plus:
  assumes "detectable hpa False d" and "any_plus_convenio xs = Inr False"
  shows "detectable hpa True (put2 d ''compensation'' ''variables'' (JList (xs @ [plus_convenio_item a])))"
proof -
  from assms(1) have dd: "is_dict d" and so: "section_ok d ''compensation''"
    by (simp_all add: detectable_def)
  have "has_plus_convenio (put2 d ''compensation'' ''variables'' (JList (xs @ [plus_convenio_item a])))
          ''compensation'' ''variables'' = Inr True"
    using assms(2)
    by (simp add: has_plus_convenio_eq is_dict_put2 [OF dd] section_ok_put2 [OF dd]
        lookup2_put2 [OF dd so] any_false_append is_plus_convenio_item ebind_def)
  with assms(1) show ?thesis
    by (simp add: detectable_def is_dict_put2 section_ok_put2 lookup_put2
        has_plus_convenio_put2 [OF dd so])
qed


subsection \<open>Routing of the allowance special case\<close>

lemma resolve_step_default_generic:
  assumes "m \<in> set (generic_gaps fl y)" and "detectable hpa hpc (document w)" and "policy \<noteq> ''ask''"
  shows "\<exists>w' ws'. resolve_step fl policy m ws w = (w', Inr ws')"
  using assms(3) apply_generic [OF assms(1,2), of "default' m"]
  by (simp add: resolve_step_def choose_value_def pbind_def preturn_def del: set_by_path.simps)

lemma resolve_loop_default_returns:
  assumes "set ms \<subseteq> set (generic_gaps fl y)" and "detectable hpa hpc (document w)"
    and "policy \<noteq> ''ask''"
  shows "\<exists>w' ws'. resolve_loop fl policy ms ws w = (w', Inr ws')"
  using assms
proof (induction ms arbitrary: w ws)
  case Nil
  then show ?case by (simp add: preturn_def)
next
  case (Cons m ms)
  from Cons.prems(1) have m: "m \<in> set (generic_gaps fl y)" and ms: "set ms \<subseteq> set (generic_gaps fl y)"
    by auto
  from resolve_step_default_generic [OF m Cons.prems(2,3)]
  obtain w1 ws1 where step: "resolve_step fl policy m ws w = (w1, Inr ws1)" by blast
  from resolve_step_generic(1) [OF m Cons.prems(2) step]
  obtain v where "document w1 = put2 (document w) (fst (field_of m)) (snd (field_of m)) v"
    by blast
  with detectable_put2 [OF m Cons.prems(2)] have "detectable hpa hpc (document w1)" by simp
  from Cons.IH [OF ms this Cons.prems(3)] obtain w' ws' where
    "resolve_loop fl policy ms ws1 w1 = (w', Inr ws')" by blast
  with step show ?case by (simp add: pbind_def)
qed

lemma resolve_step_plus_default:
  assumes "detectable hpa False (document w)" and "variables_of (document w) = JList xs"
    and "any_plus_convenio xs = Inr False" and "policy \<noteq> ''ask''"
  shows "\<exists>w' ws'. resolve_step fl policy mf_plus_convenio ws w = (w', Inr ws')
           \<and> document w' = put2 (document w) ''compensation'' ''variables''
                              (JList (xs @ [plus_convenio_item (Finite 0)]))"
proof -
  from assms(1) have dd: "is_dict (document w)" and so: "section_ok (document w) ''compensation''"
    by (simp_all add: detectable_def)
  have "(if JFloat (Finite 0) \<noteq> JNull then py_float fl (JFloat (Finite 0)) else Inr (Finite 0)) = Inr (Finite 0)"
    by simp
  note sp = set_plus_convenio_append [OF dd so assms(2,3) this]
  have d: "default' mf_plus_convenio = JFloat (Finite 0)"
    by (simp add: mf_plus_convenio_def)
  show ?thesis
    using assms(4) sp
    by (simp add: resolve_step_def choose_value_def pbind_def preturn_def on_payload_def mf_paths d
        del: set_by_path.simps)
qed

lemma generic_gap_not_variables:
  assumes "m \<in> set (generic_gaps fl y)"
  shows "field_of m \<noteq> (''compensation'', ''variables'')"
    and "field_of m \<noteq> (''compensation'', ''plus_convenio_amount'')"
  using assms by (cases rule: generic_gap_cases; simp)+

text \<open>
  C4. When an allowance item is named \<^verbatim>\<open>plus convenio\<close> in some letter-casing, no
  variable-pay item is, \<^verbatim>\<open>compensation.variables\<close> is absent or a list \<open>xs\<close>, and the detector
  returns, then the returned gaps have exactly one with the path
  \<^verbatim>\<open>compensation.plus_convenio_amount\<close>, the first; resolving the gaps under policy
  \<^verbatim>\<open>default\<close> returns normally, \<^verbatim>\<open>compensation.variables\<close> is then \<open>xs\<close> followed by the new item
  (name \<^verbatim>\<open>Plus Convenio\<close>, \<^verbatim>\<open>taxable\<close> and \<^verbatim>\<open>contributory\<close> true, \<^verbatim>\<open>cra_code\<close> \<^verbatim>\<open>C02\<close>, \<^verbatim>\<open>amount\<close> 0.0),
  and the key \<^verbatim>\<open>plus_convenio_amount\<close> of \<^verbatim>\<open>compensation\<close> is what it was: nothing is written
  at the literal path.
\<close>

theorem plus_convenio_routed:
  assumes hpa: "has_plus_convenio p ''collective_agreement'' ''allowances'' = Inr True"
    and hpc: "has_plus_convenio p ''compensation'' ''variables'' = Inr False"
    and vars: "variables_of p = JList xs"
    and det: "detect_missing fl p = (p1, Inr ms)"
  shows "\<exists>rest w' warnings.
           ms = mf_plus_convenio # rest
         \<and> (\<forall>m \<in> set rest. path m \<noteq> ''compensation.plus_convenio_amount'')
         \<and> resolve_missing fl ms ''default'' \<lparr>document = p1, stdin = inp, stdout = out\<rparr>
             = (w', Inr warnings)
         \<and> lookup2 (document w') ''compensation'' ''variables''
             = Some (JList (xs @ [plus_convenio_item (Finite 0)]))
         \<and> lookup2 (document w') ''compensation'' ''plus_convenio_amount''
             = lookup2 p ''compensation'' ''plus_convenio_amount''"
proof -
  define w0 where "w0 = \<lparr>document = p1, stdin = inp, stdout = out\<rparr>"
  from det obtain hpa' hpc' where d0: "detectable hpa' hpc' p1" and ms: "ms = rule_gaps fl hpa' hpc' p1"
    and h': "has_plus_convenio p ''collective_agreement'' ''allowances'' = Inr hpa'"
      "has_plus_convenio p ''compensation'' ''variables'' = Inr hpc'"
    and l: "\<forall>a b. lookup2 p1 a b = lookup2 p a b"
    by (rule detect_missing_detectable)
  from h' hpa hpc have hh: "hpa' = True" "hpc' = False" by simp_all
  from d0 hh have d0': "detectable True False (document w0)" by (simp add: w0_def)
  from rule_gaps_generic [of fl True False p1] obtain gs where
    split0: "rule_gaps fl True False p1 = (if True \<and> \<not> False then [mf_plus_convenio] else []) @ gs"
    and gs: "set gs \<subseteq> set (generic_gaps fl (get2 p1 ''period'' ''year''))"
    by blast
  from split0 have split: "ms = mf_plus_convenio # gs"
    by (simp add: ms hh)
  have paths: "\<forall>m \<in> set gs. path m \<noteq> ''compensation.plus_convenio_amount''"
    using gs generic_gap_path(2) by blast
  from vars l have vars1: "variables_of (document w0) = JList xs"
    by (simp add: variables_of_def w0_def)
  from has_plus_False(3) [OF hpc] vars have any: "any_plus_convenio xs = Inr False"
    by auto
  have da: "''default'' \<noteq> ''ask''" by simp
  from resolve_step_plus_default [OF d0' vars1 any da, of fl "[]"]
  obtain w1 ws1 where step: "resolve_step fl ''default'' mf_plus_convenio [] w0 = (w1, Inr ws1)"
    and w1: "document w1 = put2 p1 ''compensation'' ''variables''
                              (JList (xs @ [plus_convenio_item (Finite 0)]))"
    by (auto simp: w0_def)
  from d0' have dd: "is_dict p1" and so: "section_ok p1 ''compensation''"
    by (simp_all add: detectable_def w0_def)
  have d1: "detectable True True (document w1)"
    unfolding w1 using d0' any by (simp add: detectable_plus w0_def)
  from resolve_loop_default_returns [OF gs d1 da, of ws1]
  obtain w' ws' where rest: "resolve_loop fl ''default'' gs ws1 w1 = (w', Inr ws')" by blast
  from resolve_loop_generic_frame [OF gs d1 rest]
  have frame: "\<And>a b. (a, b) \<notin> field_of ` set gs \<Longrightarrow> lookup2 (document w') a b = lookup2 (document w1) a b"
    by blast
  have nv: "(''compensation'', ''variables'') \<notin> field_of ` set gs"
    "(''compensation'', ''plus_convenio_amount'') \<notin> field_of ` set gs"
  proof -
    show "(''compensation'', ''variables'') \<notin> field_of ` set gs"
    proof
      assume "(''compensation'', ''variables'') \<in> field_of ` set gs"
      then obtain m where "m \<in> set gs" "field_of m = (''compensation'', ''variables'')" by auto
      with gs generic_gap_not_variables(1) [of m] show False by blast
    qed
    show "(''compensation'', ''plus_convenio_amount'') \<notin> field_of ` set gs"
    proof
      assume "(''compensation'', ''plus_convenio_amount'') \<in> field_of ` set gs"
      then obtain m where "m \<in> set gs" "field_of m = (''compensation'', ''plus_convenio_amount'')" by auto
      with gs generic_gap_not_variables(2) [of m] show False by blast
    qed
  qed
  have r: "resolve_missing fl ms ''default'' w0 = (w', Inr ws')"
    using step rest by (simp add: resolve_missing_def split pbind_def)
  have v: "lookup2 (document w') ''compensation'' ''variables''
             = Some (JList (xs @ [plus_convenio_item (Finite 0)]))"
    by (simp add: frame [OF nv(1)] w1 lookup2_put2 [OF dd so])
  have a: "lookup2 (document w') ''compensation'' ''plus_convenio_amount''
             = lookup2 p ''compensation'' ''plus_convenio_amount''"
    by (simp add: frame [OF nv(2)] w1 lookup2_put2 [OF dd so] l)
  from split paths r v a show ?thesis
    unfolding w0_def by (intro exI [of _ gs] exI [of _ w'] exI [of _ ws'] conjI)
qed

subsection \<open>Concrete runs\<close>

lemmas eval_defs = detect_missing_def resolve_missing_def resolve_step_def choose_value_def
  pbind_def pread_def pmodify_def preturn_def on_payload_def has_plus_convenio_def ebind_def
  mf_plus_convenio_def mf_atep_def mf_cotization_year_def mf_irpf_year_def mf_cra_code_def
  mf_nif_def mf_irpf_regime_def py_str_def example_float_ops_def is_plus_convenio_def
  lower_def lower_char_def set_plus_convenio_def new_plus_convenio_def




theorem plus_convenio_routed_witness:
  "has_plus_convenio
     (JObj [(''collective_agreement'', JObj [(''allowances'', JList [JObj [(''name'', JStr ''PLUS Convenio'')]])])])
     ''collective_agreement'' ''allowances'' = Inr True
   \<and> has_plus_convenio
     (JObj [(''collective_agreement'', JObj [(''allowances'', JList [JObj [(''name'', JStr ''PLUS Convenio'')]])])])
     ''compensation'' ''variables'' = Inr False
   \<and> variables_of
     (JObj [(''collective_agreement'', JObj [(''allowances'', JList [JObj [(''name'', JStr ''PLUS Convenio'')]])])])
     = JList []
   \<and> (\<exists>p1 ms rest w' warnings.
         detect_missing example_float_ops
           (JObj [(''collective_agreement'', JObj [(''allowances'', JList [JObj [(''name'', JStr ''PLUS Convenio'')]])])])
           = (p1, Inr ms)
         \<and> ms = mf_plus_convenio # rest
         \<and> (\<forall>m \<in> set rest. path m \<noteq> ''compensation.plus_convenio_amount'')
         \<and> resolve_missing example_float_ops ms ''default'' \<lparr>document = p1, stdin = [], stdout = []\<rparr>
             = (w', Inr warnings)
         \<and> lookup2 (document w') ''compensation'' ''variables''
             = Some (JList [plus_convenio_item (Finite 0)])
         \<and> lookup2 (document w') ''compensation'' ''plus_convenio_amount'' = None)"
proof -
  define p where "p = JObj [(''collective_agreement'', JObj [(''allowances'', JList [JObj [(''name'', JStr ''PLUS Convenio'')]])])]"
  have h1: "has_plus_convenio p ''collective_agreement'' ''allowances'' = Inr True"
    unfolding p_def by (simp add: eval_defs)
  have h2: "has_plus_convenio p ''compensation'' ''variables'' = Inr False"
    unfolding p_def by (simp add: eval_defs)
  have h3: "variables_of p = JList []"
    unfolding p_def by (simp add: variables_of_def lookup2_def)
  obtain p1 ms where h4: "detect_missing example_float_ops p = (p1, Inr ms)"
    unfolding p_def by (simp add: eval_defs)
  have l: "lookup2 p ''compensation'' ''plus_convenio_amount'' = None"
    unfolding p_def by (simp add: lookup2_def)
  from plus_convenio_routed [OF h1 h2 h3 h4, of "[]" "[]"] h1 h2 h3 h4 l
  show ?thesis unfolding p_def by auto
qed

subsection \<open>Region enrichment and the caller's document\<close>

lemma fresh_from_iff:
  "fresh_from n h \<longleftrightarrow> (\<forall>a. n \<le> a \<and> a < length h \<longrightarrow> refs_of (h ! a) \<subseteq> {n..<length h})"
proof
  assume f: "fresh_from n h"
  show "\<forall>a. n \<le> a \<and> a < length h \<longrightarrow> refs_of (h ! a) \<subseteq> {n..<length h}"
  proof (intro allI impI)
    fix a
    assume a: "n \<le> a \<and> a < length h"
    then have "h ! a = drop n h ! (a - n)" and "a - n < length (drop n h)" by auto
    then have "h ! a \<in> set (drop n h)" by (metis nth_mem)
    with f show "refs_of (h ! a) \<subseteq> {n..<length h}" by (simp add: fresh_from_def list_all_iff)
  qed
next
  assume r: "\<forall>a. n \<le> a \<and> a < length h \<longrightarrow> refs_of (h ! a) \<subseteq> {n..<length h}"
  show "fresh_from n h"
    unfolding fresh_from_def list_all_iff
  proof
    fix ob
    assume "ob \<in> set (drop n h)"
    then obtain i where i: "i < length (drop n h)" and ob: "ob = drop n h ! i"
      by (auto simp: in_set_conv_nth)
    then have "ob = h ! (n + i)" and "n \<le> n + i \<and> n + i < length h" by simp_all
    with r show "refs_of ob \<subseteq> {n..<length h}" by blast
  qed
qed


lemma fresh_from_append:
  assumes "fresh_from n h" and "n \<le> length h" and "refs_of ob \<subseteq> {n..<Suc (length h)}"
  shows "fresh_from n (h @ [ob])"
  unfolding fresh_from_iff
proof (intro allI impI)
  fix a
  assume a: "n \<le> a \<and> a < length (h @ [ob])"
  show "refs_of ((h @ [ob]) ! a) \<subseteq> {n..<length (h @ [ob])}"
  proof (cases "a < length h")
    case True
    with a assms(1) have "refs_of (h ! a) \<subseteq> {n..<length h}" by (simp add: fresh_from_iff)
    with True show ?thesis by (auto simp: nth_append)
  next
    case False
    with a have "a = length h" by simp
    with assms(3) show ?thesis by (simp add: nth_append)
  qed
qed

lemma val_fresh_mono: "val_fresh n h v \<Longrightarrow> prefix h h' \<Longrightarrow> val_fresh n h' v"
  by (auto simp: val_fresh_def prefix_def)

lemma loads_fresh:
  "n \<le> length h \<Longrightarrow> fresh_from n h \<Longrightarrow> loads j h = (h', v)
     \<Longrightarrow> prefix h h' \<and> fresh_from n h' \<and> val_fresh n h' v"
  "n \<le> length h \<Longrightarrow> fresh_from n h \<Longrightarrow> loads_list js h = (h', vs)
     \<Longrightarrow> prefix h h' \<and> fresh_from n h' \<and> (\<forall>v \<in> set vs. val_fresh n h' v)"
  "n \<le> length h \<Longrightarrow> fresh_from n h \<Longrightarrow> loads_items kvs h = (h', kvs')
     \<Longrightarrow> prefix h h' \<and> fresh_from n h' \<and> (\<forall>kv \<in> set kvs'. val_fresh n h' (snd kv))"
proof (induction j h and js h and kvs h arbitrary: h' v and h' vs and h' kvs'
    rule: loads_loads_list_loads_items.induct)
  case (6 js h)
  obtain h1 vs where l: "loads_list js h = (h1, vs)" by (cases "loads_list js h")
  from "6.IH" [OF "6.prems"(1,2) l] have p: "prefix h h1" and f: "fresh_from n h1"
    and v: "\<forall>v \<in> set vs. val_fresh n h1 v" by auto
  from p "6.prems"(1) have n1: "n \<le> length h1" by (auto simp: prefix_def)
  from v have "refs_of (ListObj vs) \<subseteq> {n..<Suc (length h1)}"
    by (fastforce simp: val_fresh_def)
  from fresh_from_append [OF f n1 this] have "fresh_from n (h1 @ [ListObj vs])" .
  moreover from p have "prefix h (h1 @ [ListObj vs])" by (auto simp: prefix_def)
  moreover have "val_fresh n (h1 @ [ListObj vs]) (VRef (length h1))"
    using n1 by (simp add: val_fresh_def)
  ultimately show ?case using "6.prems"(3) l by auto
next
  case (7 kvs h)
  obtain h1 kvs' where l: "loads_items kvs h = (h1, kvs')" by (cases "loads_items kvs h")
  from "7.IH" [OF "7.prems"(1,2) l] have p: "prefix h h1" and f: "fresh_from n h1"
    and v: "\<forall>kv \<in> set kvs'. val_fresh n h1 (snd kv)" by auto
  from p "7.prems"(1) have n1: "n \<le> length h1" by (auto simp: prefix_def)
  from v have "refs_of (DictObj kvs') \<subseteq> {n..<Suc (length h1)}"
    by (fastforce simp: val_fresh_def)
  from fresh_from_append [OF f n1 this] have "fresh_from n (h1 @ [DictObj kvs'])" .
  moreover from p have "prefix h (h1 @ [DictObj kvs'])" by (auto simp: prefix_def)
  moreover have "val_fresh n (h1 @ [DictObj kvs']) (VRef (length h1))"
    using n1 by (simp add: val_fresh_def)
  ultimately show ?case using "7.prems"(3) l by auto
next
  case (9 j js h)
  obtain h1 v where l1: "loads j h = (h1, v)" by (cases "loads j h")
  obtain h2 vs' where l2: "loads_list js h1 = (h2, vs')" by (cases "loads_list js h1")
  from "9.IH"(1) [OF "9.prems"(1,2) l1] have p1: "prefix h h1" and f1: "fresh_from n h1"
    and v1: "val_fresh n h1 v" by auto
  from p1 "9.prems"(1) have n1: "n \<le> length h1" by (auto simp: prefix_def)
  from "9.IH"(2) [OF l1 [symmetric] n1 f1 l2] have p2: "prefix h1 h2" and f2: "fresh_from n h2"
    and v2: "\<forall>v \<in> set vs'. val_fresh n h2 v" by auto
  from p1 p2 have "prefix h h2" by (rule prefix_order.trans)
  moreover from v1 p2 have "val_fresh n h2 v" by (rule val_fresh_mono)
  ultimately show ?case using "9.prems"(3) l1 l2 f2 v2 by auto
next
  case (11 kv kvs h)
  obtain h1 v where l1: "loads (snd kv) h = (h1, v)" by (cases "loads (snd kv) h")
  obtain h2 kvs2 where l2: "loads_items kvs h1 = (h2, kvs2)" by (cases "loads_items kvs h1")
  from "11.IH"(1) [OF "11.prems"(1,2) l1] have p1: "prefix h h1" and f1: "fresh_from n h1"
    and v1: "val_fresh n h1 v" by auto
  from p1 "11.prems"(1) have n1: "n \<le> length h1" by (auto simp: prefix_def)
  from "11.IH"(2) [OF l1 [symmetric] n1 f1 l2] have p2: "prefix h1 h2" and f2: "fresh_from n h2"
    and v2: "\<forall>kv \<in> set kvs2. val_fresh n h2 (snd kv)" by auto
  from p1 p2 have "prefix h h2" by (rule prefix_order.trans)
  moreover from v1 p2 have "val_fresh n h2 v" by (rule val_fresh_mono)
  ultimately show ?case using "11.prems"(3) l1 l2 f2 v2 by auto
qed (auto simp: val_fresh_def)

lemma new_dict_fresh:
  assumes "n \<le> length h" and "fresh_from n h" and "new_dict h = (h', v)"
  shows "prefix h h' \<and> fresh_from n h' \<and> val_fresh n h' v"
proof -
  from assms(3) have h': "h' = h @ [DictObj []]" and v: "v = VRef (length h)"
    by (simp_all add: new_dict_def)
  have "fresh_from n (h @ [DictObj []])"
    using assms(2,1) by (rule fresh_from_append) simp
  with assms(1) show ?thesis
    by (simp add: h' v val_fresh_def)
qed

lemma prefix_update:
  assumes "prefix h0 h" and "length h0 \<le> a"
  shows "prefix h0 (h[a := ob])"
proof -
  from assms(1) obtain ext where "h = h0 @ ext" by (auto simp: prefix_def)
  with assms(2) show ?thesis by (simp add: list_update_append)
qed

lemma fresh_from_update:
  assumes "fresh_from n h" and "n \<le> a" and "refs_of ob \<subseteq> {n..<length h}"
  shows "fresh_from n (h[a := ob])"
  unfolding fresh_from_iff
proof (intro allI impI)
  fix b
  assume b: "n \<le> b \<and> b < length (h[a := ob])"
  show "refs_of (h[a := ob] ! b) \<subseteq> {n..<length (h[a := ob])}"
  proof (cases "b = a")
    case True
    with b assms(3) show ?thesis by simp
  next
    case False
    with b assms(1) show ?thesis by (simp add: fresh_from_iff)
  qed
qed

lemma deref_fresh:
  assumes "fresh_from n h" and "val_fresh n h d" and "deref h d = Some ob"
  shows "\<exists>a. d = VRef a \<and> n \<le> a \<and> a < length h \<and> h ! a = ob \<and> refs_of ob \<subseteq> {n..<length h}"
proof -
  from assms(3) obtain a where d: "d = VRef a" and a: "a < length h" and ob: "h ! a = ob"
    by (cases d) (auto split: if_splits)
  from assms(2) d have "n \<le> a" by (simp add: val_fresh_def)
  with assms(1) a ob d show ?thesis by (auto simp: fresh_from_iff)
qed

lemma dict_value_fresh:
  assumes "refs_of (DictObj kvs) \<subseteq> {n..<m}" and "map_of kvs k = Some v"
  shows "ref_of v \<subseteq> {n..<m}"
proof -
  from assms(2) have "(k, v) \<in> set kvs" by (rule map_of_SomeD)
  then have "ref_of v \<subseteq> refs_of (DictObj kvs)" by force
  with assms(1) show ?thesis by blast
qed

lemma h_get_fresh:
  assumes "fresh_from n h" and "val_fresh n h d" and "val_fresh n h dflt"
    and "h_get h d k dflt = Inr v"
  shows "val_fresh n h v" and "\<exists>a. d = VRef a \<and> n \<le> a \<and> a < length h"
proof -
  from assms(4) obtain kvs where de: "deref h d = Some (DictObj kvs)"
    and v: "v = (case map_of kvs k of None \<Rightarrow> dflt | Some x \<Rightarrow> x)"
    by (auto simp: h_get_def split: option.splits pyobj.splits)
  from deref_fresh [OF assms(1,2) de] obtain a where a: "d = VRef a" "n \<le> a" "a < length h"
    and r: "refs_of (DictObj kvs) \<subseteq> {n..<length h}" by blast
  from a show "\<exists>a. d = VRef a \<and> n \<le> a \<and> a < length h" by blast
  show "val_fresh n h v"
  proof (cases "map_of kvs k")
    case None
    with v assms(3) show ?thesis by simp
  next
    case (Some x)
    with v dict_value_fresh [OF r Some] show ?thesis by (simp add: val_fresh_def)
  qed
qed

lemma h_setdefault_fresh:
  assumes "prefix h0 h" and "n = length h0" and "fresh_from n h" and "val_fresh n h d"
    and "val_fresh n h dflt" and "h_setdefault h d k dflt = Inr (h', v)"
  shows "prefix h0 h' \<and> fresh_from n h' \<and> val_fresh n h' v \<and> length h' = length h"
proof -
  from assms(6) obtain a kvs where d: "d = VRef a" and de: "deref h d = Some (DictObj kvs)"
    by (auto simp: h_setdefault_def split: pyval.splits option.splits pyobj.splits)
  from deref_fresh [OF assms(3,4) de] d have a: "n \<le> a" "a < length h"
    and r: "refs_of (DictObj kvs) \<subseteq> {n..<length h}" by auto
  show ?thesis
  proof (cases "map_of kvs k")
    case None
    with assms(6) d de have h': "h' = h[a := DictObj (kvs @ [(k, dflt)])]" and v: "v = dflt"
      by (auto simp: h_setdefault_def)
    from r assms(5) have "refs_of (DictObj (kvs @ [(k, dflt)])) \<subseteq> {n..<length h}"
      by (auto simp: val_fresh_def)
    from fresh_from_update [OF assms(3) a(1) this] prefix_update [OF assms(1)] a assms(2,5)
    show ?thesis by (simp add: h' v val_fresh_def)
  next
    case (Some x)
    with assms(6) d de have h': "h' = h" and v: "v = x"
      by (auto simp: h_setdefault_def)
    from dict_value_fresh [OF r Some] assms(1,3) show ?thesis
      by (simp add: h' v val_fresh_def)
  qed
qed

lemma h_setitem_fresh:
  assumes "prefix h0 h" and "n = length h0" and "fresh_from n h" and "val_fresh n h d"
    and "val_fresh n h v" and "h_setitem h d k v = Inr h'"
  shows "prefix h0 h' \<and> fresh_from n h' \<and> length h' = length h"
proof -
  from assms(6) obtain a kvs where d: "d = VRef a" and de: "deref h d = Some (DictObj kvs)"
    and h': "h' = h[a := DictObj (AList.update k v kvs)]"
    by (auto simp: h_setitem_def split: pyval.splits option.splits pyobj.splits)
  from deref_fresh [OF assms(3,4) de] d have a: "n \<le> a" "a < length h"
    and r: "refs_of (DictObj kvs) \<subseteq> {n..<length h}" by auto
  have "refs_of (DictObj (AList.update k v kvs)) \<subseteq> {n..<length h}"
  proof
    fix x
    assume "x \<in> refs_of (DictObj (AList.update k v kvs))"
    then obtain kv where kv: "kv \<in> set (AList.update k v kvs)" "x \<in> ref_of (snd kv)" by auto
    from kv(1) have "kv \<in> set kvs \<or> kv = (k, v)"
      by (induction kvs) (auto split: if_splits)
    with kv(2) r assms(5) show "x \<in> {n..<length h}"
      by (fastforce simp: val_fresh_def)
  qed
  from fresh_from_update [OF assms(3) a(1) this] prefix_update [OF assms(1)] a assms(2)
  show ?thesis by (simp add: h')
qed

lemma h_region_regime_fresh: "h_region_regime c = Inr r \<Longrightarrow> val_fresh n h r"
  by (cases c) (auto simp: val_fresh_def split: sum.splits json.splits)

lemma dumps_prefix:
  "prefix h h' \<Longrightarrow> dumps h seen v = Inr j \<Longrightarrow> dumps h' seen v = Inr j"
  "prefix h h' \<Longrightarrow> dumps_list h seen vs = Inr js \<Longrightarrow> dumps_list h' seen vs = Inr js"
  "prefix h h' \<Longrightarrow> dumps_items h seen kvs = Inr jkvs \<Longrightarrow> dumps_items h' seen kvs = Inr jkvs"
proof (induction h seen v and h seen vs and h seen kvs arbitrary: j and js and jkvs
    rule: dumps_dumps_list_dumps_items.induct)
  case (6 h seen a)
  from "6.prems"(2) have na: "a \<notin> set seen" and al: "\<not> length h \<le> a"
    by (auto split: if_splits)
  from "6.prems"(1) al have nth: "h' ! a = h ! a" and al': "\<not> length h' \<le> a"
    by (auto simp: prefix_def nth_append)
  show ?case
  proof (cases "h ! a")
    case (DictObj kvs)
    with "6.prems"(2) na al obtain jkvs where d: "dumps_items h (a # seen) kvs = Inr jkvs"
      and j: "j = JObj jkvs"
      by (auto simp: ebind_def split: sum.splits)
    from "6.IH"(1) [OF na al DictObj "6.prems"(1) d] j na al' nth DictObj
    show ?thesis by (simp add: ebind_def)
  next
    case (ListObj vs)
    with "6.prems"(2) na al obtain js where d: "dumps_list h (a # seen) vs = Inr js"
      and j: "j = JList js"
      by (auto simp: ebind_def split: sum.splits)
    from "6.IH"(2) [OF na al ListObj "6.prems"(1) d] j na al' nth ListObj
    show ?thesis by (simp add: ebind_def)
  qed
next
  case (8 h seen v vs)
  from "8.prems"(2) obtain j js' where a: "dumps h seen v = Inr j" and b: "dumps_list h seen vs = Inr js'"
    and js: "js = j # js'"
    by (auto simp: ebind_def split: sum.splits)
  from "8.IH"(1) [OF "8.prems"(1) a] "8.IH"(2) [OF "8.prems"(1) b] js
  show ?case by (simp add: ebind_def)
next
  case (10 h seen kv kvs)
  from "10.prems"(2) obtain j js' where a: "dumps h seen (snd kv) = Inr j"
    and b: "dumps_items h seen kvs = Inr js'" and js: "jkvs = (fst kv, j) # js'"
    by (auto simp: ebind_def split: sum.splits)
  from "10.IH"(1) [OF "10.prems"(1) a] "10.IH"(2) [OF "10.prems"(1) b] js
  show ?case by (simp add: ebind_def)
qed simp_all

text \<open>
  C8. Enrichment leaves the store it was given as it was: every object that existed before
  the call is unchanged, so the argument serialises to the same tree as before. The
  objects it allocates refer only to each other, never to an object of the caller, and the
  document it returns is one of them. This holds whether the call returns or raises.
\<close>

theorem enrich_region_config_h_frame:
  assumes "enrich_region_config_h h payload = (h', r)"
  shows "prefix h h'
       \<and> dumps h' [] payload = dumps h [] payload
       \<and> fresh_from (length h) h'
       \<and> (\<forall>d. r = Inr d \<longrightarrow> (\<exists>a. d = VRef a \<and> length h \<le> a \<and> a < length h'))"
proof (cases "dumps h [] payload")
  case (Inl e)
  with assms have "h' = h" "r = Inl e" by (simp_all add: enrich_region_config_h_def)
  then show ?thesis by (auto simp: fresh_from_iff)
next
  case (Inr tree)
  define n where "n = length h"
  have f0: "fresh_from n h" by (auto simp: fresh_from_iff n_def)
  have n0: "n \<le> length h" by (simp add: n_def)
  obtain h1 data where l: "loads tree h = (h1, data)" by (cases "loads tree h")
  from loads_fresh(1) [OF n0 f0 l] have p1: "prefix h h1" and f1: "fresh_from n h1"
    and v1: "val_fresh n h1 data" by auto
  from p1 have n1: "n \<le> length h1" by (auto simp: prefix_def n_def)
  obtain h2 e1 where nd1: "new_dict h1 = (h2, e1)" by (cases "new_dict h1")
  from new_dict_fresh [OF n1 f1 nd1] have p12: "prefix h1 h2" and f2: "fresh_from n h2"
    and ve1: "val_fresh n h2 e1" by auto
  from p1 p12 have p2: "prefix h h2" by (rule prefix_order.trans)
  from v1 p12 have vd2: "val_fresh n h2 data" by (rule val_fresh_mono)
  from p2 have n2: "n \<le> length h2" by (auto simp: prefix_def n_def)
  have raised: ?thesis if "h' = hx" "r = Inl e" "prefix h hx" "fresh_from n hx" for hx e
    using that dumps_prefix(1) [OF that(3) Inr] Inr by (simp add: n_def)
  note unfold = enrich_region_config_h_def Inr l nd1
  show ?thesis
  proof (cases "ebind (h_get h2 data ''region_config'' e1) (\<lambda>rc0. h_get h2 rc0 ''ccaa'' VNull)")
    case (Inl e)
    with assms have "h' = h2" "r = Inl e" by (simp_all add: unfold)
    then show ?thesis using p2 f2 by (rule raised)
  next
    case c: (Inr ccaa)
    then obtain rc0 where g1: "h_get h2 data ''region_config'' e1 = Inr rc0"
      by (auto simp: ebind_def split: sum.splits)
    from h_get_fresh(2) [OF f2 vd2 ve1 g1] obtain a where a: "data = VRef a" "n \<le> a" "a < length h2"
      by blast
    have returned: ?thesis
      if "h' = hx" "r = Inr data \<or> r = Inl e" "prefix h hx" "fresh_from n hx" "length h2 \<le> length hx"
      for hx e
      using that a dumps_prefix(1) [OF that(3) Inr] Inr by (auto simp: n_def)
    show ?thesis
    proof (cases "h_truthy h2 ccaa")
      case False
      with assms c have "h' = h2" "r = Inr data" by (simp_all add: unfold)
      then show ?thesis using p2 f2 by (intro returned [of h2]) simp_all
    next
      case True
      obtain h3 e2 where nd2: "new_dict h2 = (h3, e2)" by (cases "new_dict h2")
      from new_dict_fresh [OF n2 f2 nd2] have p23: "prefix h2 h3" and f3: "fresh_from n h3"
        and ve2: "val_fresh n h3 e2" by auto
      from p2 p23 have p3: "prefix h h3" by (rule prefix_order.trans)
      from vd2 p23 have vd3: "val_fresh n h3 data" by (rule val_fresh_mono)
      from p23 have l3: "length h2 \<le> length h3" by (auto simp: prefix_def)
      note unfold3 = unfold c True nd2
      show ?thesis
      proof (cases "h_setdefault h3 data ''region_config'' e2")
        case (Inl e)
        with assms have "h' = h3" "r = Inl e" by (simp_all add: unfold3)
        then show ?thesis using p3 f3 by (rule raised)
      next
        case sd1: (Inr x)
        obtain h4 rc where x: "x = (h4, rc)" by (cases x)
        from h_setdefault_fresh [OF p3 n_def f3 vd3 ve2 sd1 [unfolded x]]
        have p4: "prefix h h4" and f4: "fresh_from n h4" and vrc4: "val_fresh n h4 rc"
          and l4: "length h4 = length h3" by auto
        note unfold4 = unfold3 sd1 x
        show ?thesis
        proof (cases "h_setdefault h4 rc ''notes'' (VStr [])")
          case (Inl e)
          with assms have "h' = h4" "r = Inl e" by (simp_all add: unfold4)
          then show ?thesis using p4 f4 by (rule raised)
        next
          case sd2: (Inr y)
          obtain h5 nt where y: "y = (h5, nt)" by (cases y)
          have vs: "val_fresh n h4 (VStr [])" by (simp add: val_fresh_def)
          from h_setdefault_fresh [OF p4 n_def f4 vrc4 vs sd2 [unfolded y]]
          have p5: "prefix h h5" and f5: "fresh_from n h5" and l5: "length h5 = length h4" by auto
          from vrc4 l5 have vrc5: "val_fresh n h5 rc" by (simp add: val_fresh_def)
          from l3 l4 l5 have len5: "length h2 \<le> length h5" by simp
          note unfold5 = unfold4 sd2 y
          show ?thesis
          proof (cases "h_contains h5 ''irpf_regime'' rc")
            case (Inl e)
            with assms have "h' = h5" "r = Inl e" by (simp_all add: unfold5)
            then show ?thesis using p5 f5 by (rule raised)
          next
            case hr: (Inr has_regime)
            show ?thesis
            proof (cases "if \<not> has_regime then h_in_region_map ccaa else Inr False")
              case (Inl e)
              with assms have "h' = h5" "r = Inl e" by (simp_all add: unfold5 hr)
              then show ?thesis using p5 f5 by (rule raised)
            next
              case k: (Inr known)
              show ?thesis
              proof (cases "\<not> has_regime \<and> known")
                case False
                with assms have "h' = h5" "r = Inr data" by (auto simp: unfold5 hr k)
                then show ?thesis using p5 f5 len5 by (intro returned [of h5]) simp_all
              next
                case t: True
                with k have k': "h_in_region_map ccaa = Inr True" and nr: "\<not> has_regime" by auto
                show ?thesis
                proof (cases "ebind (h_region_regime ccaa) (\<lambda>r. h_setitem h5 rc ''irpf_regime'' r)")
                  case (Inl e)
                  with assms nr have "h' = h5" "r = Inl e" by (simp_all add: unfold5 hr k')
                  then show ?thesis using p5 f5 by (rule raised)
                next
                  case si: (Inr h6)
                  then obtain r0 where rr: "h_region_regime ccaa = Inr r0"
                    and st: "h_setitem h5 rc ''irpf_regime'' r0 = Inr h6"
                    by (auto simp: ebind_def split: sum.splits)
                  from h_setitem_fresh [OF p5 n_def f5 vrc5 h_region_regime_fresh [OF rr] st]
                  have p6: "prefix h h6" and f6: "fresh_from n h6" and l6: "length h6 = length h5"
                    by auto
                  from assms nr si have "h' = h6" "r = Inr data" by (simp_all add: unfold5 hr k')
                  then show ?thesis using p6 f6 len5 l6 by (intro returned [of h6]) simp_all
                qed
              qed
            qed
          qed
        qed
      qed
    qed
  qed
qed

theorem enrich_region_config_h_frame_witness:
  "enrich_region_config_h
     [DictObj [(''region_config'', VRef 1)], DictObj [(''ccaa'', VStr ''Galicia'')]] (VRef 0)
   = ([DictObj [(''region_config'', VRef 1)], DictObj [(''ccaa'', VStr ''Galicia'')],
       DictObj [(''ccaa'', VStr ''Galicia''), (''notes'', VStr []), (''irpf_regime'', VStr ''AEAT'')],
       DictObj [(''region_config'', VRef 2)], DictObj [], DictObj []],
      Inr (VRef 3))
   \<and> prefix [DictObj [(''region_config'', VRef 1)], DictObj [(''ccaa'', VStr ''Galicia'')]]
       [DictObj [(''region_config'', VRef 1)], DictObj [(''ccaa'', VStr ''Galicia'')],
        DictObj [(''ccaa'', VStr ''Galicia''), (''notes'', VStr []), (''irpf_regime'', VStr ''AEAT'')],
        DictObj [(''region_config'', VRef 2)], DictObj [], DictObj []]
   \<and> dumps
       [DictObj [(''region_config'', VRef 1)], DictObj [(''ccaa'', VStr ''Galicia'')],
        DictObj [(''ccaa'', VStr ''Galicia''), (''notes'', VStr []), (''irpf_regime'', VStr ''AEAT'')],
        DictObj [(''region_config'', VRef 2)], DictObj [], DictObj []] [] (VRef 0)
     = Inr (JObj [(''region_config'', JObj [(''ccaa'', JStr ''Galicia'')])])
   \<and> fresh_from 2
       [DictObj [(''region_config'', VRef 1)], DictObj [(''ccaa'', VStr ''Galicia'')],
        DictObj [(''ccaa'', VStr ''Galicia''), (''notes'', VStr []), (''irpf_regime'', VStr ''AEAT'')],
        DictObj [(''region_config'', VRef 2)], DictObj [], DictObj []]"
proof -
  have e: "enrich_region_config_h
     [DictObj [(''region_config'', VRef 1)], DictObj [(''ccaa'', VStr ''Galicia'')]] (VRef 0)
   = ([DictObj [(''region_config'', VRef 1)], DictObj [(''ccaa'', VStr ''Galicia'')],
       DictObj [(''ccaa'', VStr ''Galicia''), (''notes'', VStr []), (''irpf_regime'', VStr ''AEAT'')],
       DictObj [(''region_config'', VRef 2)], DictObj [], DictObj []],
      Inr (VRef 3))"
    by code_simp
  have d: "dumps [DictObj [(''region_config'', VRef 1)], DictObj [(''ccaa'', VStr ''Galicia'')]] []
             (VRef 0)
           = Inr (JObj [(''region_config'', JObj [(''ccaa'', JStr ''Galicia'')])])"
    by code_simp
  from enrich_region_config_h_frame [OF e] e d show ?thesis
    by (simp add: numeral_2_eq_2)
qed

end
